theory Spec2Isabelle
  imports Complex_Main "HOL-Library.Log_Nat"
begin

section \<open>Python values\<close>

subsection \<open>Floats\<close>

text \<open>
  Amounts, fees, balances and timestamps are Python floats (\<^verbatim>\<open>float(amount)\<close> in the
  constructor of \<^verbatim>\<open>Transaction\<close>, \<^verbatim>\<open>balance = 0.0\<close> in \<^verbatim>\<open>get_balance\<close>), that is IEEE 754
  binary64 numbers. A finite float is a rational number; the three special values are
  kept, with the rules Python follows: an infinity absorbs finite values, opposite
  infinities add up to NaN, NaN absorbs everything, and every comparison with NaN is
  false. The two zeros are one value here: the comparisons of the source do not tell
  them apart. The finite values range over all rationals, of which the binary64 numbers
  are those that \<open>round_double\<close> below leaves as they are; what is proved for every value
  holds for every float.
\<close>

datatype pyfloat = Fin rat | PInf | NInf | NaN

text \<open>
  The sum of two finite floats is the exact sum rounded to the nearest binary64 number,
  ties to the even significand, and an infinity when the rounded magnitude reaches
  \<open>2\<^sup>1\<^sup>0\<^sup>2\<^sup>4\<close>. For a positive rational \<open>a\<close> with \<open>2\<^sup>L \<le> a < 2\<^sup>L\<^sup>+\<^sup>1\<close> the binary64 numbers around
  \<open>a\<close> are the multiples of \<open>2\<^sup>e\<close> where \<open>e = L - 52\<close>, and \<open>e = -1074\<close> in the subnormal
  range.
\<close>

definition round_half_even :: "rat \<Rightarrow> int" where
  "round_half_even x =
     (let f = \<lfloor>x\<rfloor>; d = x - of_int f
      in if d < 1 / 2 then f else if 1 / 2 < d then f + 1 else if even f then f else f + 1)"

definition floor_log2 :: "rat \<Rightarrow> int" where
  "floor_log2 a =
     (case quotient_of a of (p, d) \<Rightarrow>
        let k = bitlen p - bitlen d in if power_int 2 k \<le> a then k else k - 1)"

definition round_double :: "rat \<Rightarrow> pyfloat" where
  "round_double q =
     (if q = 0 then Fin 0
      else let e = max (- 1074) (floor_log2 \<bar>q\<bar> - 52);
               m = round_half_even (\<bar>q\<bar> / power_int 2 e);
               r = of_int m * power_int 2 e
           in if 2 ^ 1024 \<le> r then (if 0 < q then PInf else NInf) else Fin (sgn q * r))"

instantiation pyfloat :: "{zero, plus, uminus, minus, ord}"
begin

definition zero_pyfloat :: pyfloat where
  "zero_pyfloat = Fin 0"

fun plus_pyfloat :: "pyfloat \<Rightarrow> pyfloat \<Rightarrow> pyfloat" where
  "plus_pyfloat NaN y = NaN"
| "plus_pyfloat x NaN = NaN"
| "plus_pyfloat (Fin a) (Fin b) = round_double (a + b)"
| "plus_pyfloat PInf NInf = NaN"
| "plus_pyfloat NInf PInf = NaN"
| "plus_pyfloat PInf y = PInf"
| "plus_pyfloat x PInf = PInf"
| "plus_pyfloat NInf y = NInf"
| "plus_pyfloat x NInf = NInf"

fun uminus_pyfloat :: "pyfloat \<Rightarrow> pyfloat" where
  "uminus_pyfloat (Fin a) = Fin (- a)"
| "uminus_pyfloat PInf = NInf"
| "uminus_pyfloat NInf = PInf"
| "uminus_pyfloat NaN = NaN"

definition minus_pyfloat :: "pyfloat \<Rightarrow> pyfloat \<Rightarrow> pyfloat" where
  "minus_pyfloat x y = x + (- y)"

fun less_pyfloat :: "pyfloat \<Rightarrow> pyfloat \<Rightarrow> bool" where
  "less_pyfloat NaN y = False"
| "less_pyfloat x NaN = False"
| "less_pyfloat (Fin a) (Fin b) = (a < b)"
| "less_pyfloat x NInf = False"
| "less_pyfloat PInf y = False"
| "less_pyfloat NInf y = True"
| "less_pyfloat x PInf = True"

fun less_eq_pyfloat :: "pyfloat \<Rightarrow> pyfloat \<Rightarrow> bool" where
  "less_eq_pyfloat NaN y = False"
| "less_eq_pyfloat x NaN = False"
| "less_eq_pyfloat (Fin a) (Fin b) = (a \<le> b)"
| "less_eq_pyfloat NInf y = True"
| "less_eq_pyfloat x PInf = True"
| "less_eq_pyfloat x NInf = False"
| "less_eq_pyfloat PInf y = False"

instance ..

end

subsection \<open>Strings, \<^verbatim>\<open>None\<close> and slices\<close>

text \<open>
  \<^verbatim>\<open>transaction_id\<close> and \<^verbatim>\<open>signature\<close> are \<^verbatim>\<open>None\<close> until they are set, then strings.
  \<^verbatim>\<open>not x\<close> holds for \<^verbatim>\<open>None\<close> and for the empty string.
\<close>

definition truthy :: "string option \<Rightarrow> bool" where
  "truthy s = (case s of None \<Rightarrow> False | Some v \<Rightarrow> v \<noteq> [])"

text \<open>\<^verbatim>\<open>s[:d]\<close> for an integer \<^verbatim>\<open>d\<close>: a negative \<^verbatim>\<open>d\<close> counts from the end.\<close>

definition py_prefix :: "int \<Rightarrow> string \<Rightarrow> string" where
  "py_prefix d s = (if 0 \<le> d then take (nat d) s else take (nat (int (length s) + d)) s)"

text \<open>\<^verbatim>\<open>"0" * d\<close>: the empty string when \<^verbatim>\<open>d \<le> 0\<close>.\<close>

definition py_zeros :: "int \<Rightarrow> string" where
  "py_zeros d = replicate (nat d) CHR ''0''"

text \<open>\<^verbatim>\<open>str\<close> of a Python integer, as an f-string renders it.\<close>

definition digit_char :: "nat \<Rightarrow> char" where
  "digit_char k = ''0123456789'' ! (k mod 10)"

fun py_str_nat :: "nat \<Rightarrow> string" where
  "py_str_nat n = (if 10 \<le> n then py_str_nat (n div 10) @ [digit_char n] else [digit_char n])"

definition py_str_int :: "int \<Rightarrow> string" where
  "py_str_int i = (if 0 \<le> i then py_str_nat (nat i) else CHR ''-'' # py_str_nat (nat (- i)))"

section \<open>Transactions (transaction.py)\<close>

record transaction =
  transaction_id :: "string option"
  sender_address :: string
  recipient_address :: string
  amount :: pyfloat
  fee :: pyfloat
  message :: string
  timestamp :: pyfloat
  signature :: "string option"
  status :: string

text \<open>
  \<^verbatim>\<open>Transaction.__init__\<close>; the last argument is the reading of \<^verbatim>\<open>time.time()\<close>. The
  default of \<^verbatim>\<open>fee\<close> is the literal \<^verbatim>\<open>0.001\<close>, the binary64 number nearest to 1/1000.
\<close>

definition default_fee :: pyfloat where
  "default_fee = round_double (1 / 1000)"

definition Transaction_init ::
  "string \<Rightarrow> string \<Rightarrow> pyfloat \<Rightarrow> pyfloat \<Rightarrow> string \<Rightarrow> pyfloat \<Rightarrow> transaction" where
  "Transaction_init sender recipient amt f msg now =
     \<lparr> transaction_id = None, sender_address = sender, recipient_address = recipient,
       amount = amt, fee = f, message = msg, timestamp = now, signature = None,
       status = ''pending'' \<rparr>"

text \<open>
  \<^verbatim>\<open>get_transaction_data\<close>: the dictionary of the six unsigned fields, which the source
  serialises with \<^verbatim>\<open>json.dumps(data, sort_keys=True)\<close>. The model keeps the dictionary;
  serialisation and SHA-256 together are the parameter \<open>H\<close> of \<open>tx_calculate_hash\<close>.
\<close>

type_synonym tx_data = "string \<times> string \<times> pyfloat \<times> pyfloat \<times> string \<times> pyfloat"

definition get_transaction_data :: "transaction \<Rightarrow> tx_data" where
  "get_transaction_data t =
     (sender_address t, recipient_address t, amount t, fee t, message t, timestamp t)"

definition tx_calculate_hash :: "(tx_data \<Rightarrow> string) \<Rightarrow> transaction \<Rightarrow> string" where
  "tx_calculate_hash H t = H (get_transaction_data t)"

text \<open>
  \<^verbatim>\<open>sign_transaction\<close>. \<^verbatim>\<open>CryptoUtils.sign_message\<close> calls \<^verbatim>\<open>private_key.sign(message)\<close> of
  the ECDSA library, which draws a fresh random nonce at every call: the signer \<open>S\<close> takes
  the key, the data and that draw.
\<close>

type_synonym signer = "nat \<Rightarrow> tx_data \<Rightarrow> nat \<Rightarrow> string"

definition sign_transaction ::
  "signer \<Rightarrow> (tx_data \<Rightarrow> string) \<Rightarrow> nat \<Rightarrow> nat \<Rightarrow> transaction \<Rightarrow> transaction" where
  "sign_transaction S H private_key draw t =
     (let transaction_data = get_transaction_data t;
          t1 = t\<lparr>signature := Some (S private_key transaction_data draw)\<rparr>
      in t1\<lparr>transaction_id := Some (tx_calculate_hash H t1)\<rparr>)"

text \<open>
  \<^verbatim>\<open>verify_signature\<close>; \<open>V\<close> is \<^verbatim>\<open>CryptoUtils.verify_signature\<close>, false where the library
  raises.
\<close>

definition verify_signature ::
  "(nat \<Rightarrow> tx_data \<Rightarrow> string \<Rightarrow> bool) \<Rightarrow> nat \<Rightarrow> transaction \<Rightarrow> bool" where
  "verify_signature V public_key t =
     (if \<not> truthy (signature t) then False
      else V public_key (get_transaction_data t) (the (signature t)))"

definition is_valid :: "transaction \<Rightarrow> bool \<times> string" where
  "is_valid t =
     (if sender_address t = [] \<or> recipient_address t = [] then
        (False, ''Invalid sender or recipient address'')
      else if amount t \<le> 0 then (False, ''Amount must be positive'')
      else if fee t < 0 then (False, ''Fee cannot be negative'')
      else if \<not> truthy (signature t) then (False, ''Transaction not signed'')
      else if \<not> truthy (transaction_id t) then (False, ''Invalid transaction ID'')
      else if sender_address t = recipient_address t then
        (False, ''Sender and recipient cannot be the same'')
      else (True, ''Transaction is valid''))"

section \<open>The object store\<close>

text \<open>
  The pending queue, the pool and the blocks hold references to the same
  \<^verbatim>\<open>Transaction\<close> objects (\<^verbatim>\<open>self.pending_transactions.copy()\<close> is a shallow copy), and
  \<^verbatim>\<open>confirm_transaction\<close> assigns \<^verbatim>\<open>tx.status\<close> through such a reference. So the lists of
  the model hold references, and the objects live in a store.
\<close>

type_synonym ref = nat

type_synonym heap = "ref \<Rightarrow> transaction"

record store =
  objs :: heap
  next_ref :: ref

definition alloc :: "store \<Rightarrow> transaction \<Rightarrow> ref \<times> store" where
  "alloc st t = (next_ref st, st\<lparr>objs := (objs st)(next_ref st := t), next_ref := Suc (next_ref st)\<rparr>)"

datatype error =
    InvalidTransaction string
  | InsufficientBalance pyfloat pyfloat
  | DuplicateTransaction
  | IndexError

section \<open>The transaction pool (transaction.py)\<close>

record transaction_pool =
  pool_transactions :: "ref list"
  confirmed_transactions :: "ref list"

definition TransactionPool_init :: transaction_pool where
  "TransactionPool_init = \<lparr> pool_transactions = [], confirmed_transactions = [] \<rparr>"

text \<open>
  \<^verbatim>\<open>TransactionPool.add_transaction\<close>. The result is the pool as the call leaves it and
  either the exception raised or the value returned.
\<close>

definition pool_add_transaction ::
  "heap \<Rightarrow> transaction_pool \<Rightarrow> ref \<Rightarrow> transaction_pool \<times> (error + bool)" where
  "pool_add_transaction hp pool r =
     (case is_valid (hp r) of
        (False, msg) \<Rightarrow> (pool, Inl (InvalidTransaction msg))
      | (True, msg) \<Rightarrow>
          if list_ex (\<lambda>x. transaction_id (hp x) = transaction_id (hp r)) (pool_transactions pool)
          then (pool, Inl DuplicateTransaction)
          else (pool\<lparr>pool_transactions := pool_transactions pool @ [r]\<rparr>, Inr True))"

text \<open>
  The loop of \<^verbatim>\<open>confirm_transaction\<close>: the first entry with the id is popped.
\<close>

fun pop_first :: "heap \<Rightarrow> string option \<Rightarrow> ref list \<Rightarrow> (ref \<times> ref list) option" where
  "pop_first hp i [] = None"
| "pop_first hp i (r # rs) =
     (if transaction_id (hp r) = i then Some (r, rs)
      else (case pop_first hp i rs of None \<Rightarrow> None | Some (x, rest) \<Rightarrow> Some (x, r # rest)))"

definition confirm_transaction ::
  "heap \<Rightarrow> transaction_pool \<Rightarrow> string option \<Rightarrow> heap \<times> transaction_pool \<times> bool" where
  "confirm_transaction hp pool i =
     (case pop_first hp i (pool_transactions pool) of
        None \<Rightarrow> (hp, pool, False)
      | Some (r, rest) \<Rightarrow>
          (hp(r := (hp r)\<lparr>status := ''confirmed''\<rparr>),
           pool\<lparr>pool_transactions := rest,
                confirmed_transactions := confirmed_transactions pool @ [r]\<rparr>,
           True))"

section \<open>Blocks (blockchain.py)\<close>

record block =
  index :: nat
  block_timestamp :: pyfloat
  transactions :: "ref list"
  previous_hash :: string
  nonce :: nat
  hash :: string

text \<open>
  \<^verbatim>\<open>Block.calculate_hash\<close>: SHA-256 of the sorted-key JSON of the five fields, each
  transaction through \<^verbatim>\<open>to_dict()\<close>, which has all nine fields of the object as they are
  when the hash is taken. Serialisation and SHA-256 together are the parameter \<open>HB\<close>.
\<close>

type_synonym block_data = "nat \<times> pyfloat \<times> transaction list \<times> string \<times> nat"

type_synonym block_hasher = "block_data \<Rightarrow> string"

definition calculate_hash :: "block_hasher \<Rightarrow> heap \<Rightarrow> block \<Rightarrow> string" where
  "calculate_hash HB hp b =
     HB (index b, block_timestamp b, map hp (transactions b), previous_hash b, nonce b)"

text \<open>
  \<^verbatim>\<open>Block.__init__\<close>: \<^verbatim>\<open>timestamp or time.time()\<close> takes the clock when the argument is
  \<^verbatim>\<open>None\<close> or zero.
\<close>

definition Block_init ::
  "block_hasher \<Rightarrow> heap \<Rightarrow> nat \<Rightarrow> ref list \<Rightarrow> string \<Rightarrow> pyfloat option \<Rightarrow> pyfloat \<Rightarrow> block" where
  "Block_init HB hp i txs prev ts now =
     (let b = \<lparr> index = i,
                block_timestamp = (case ts of None \<Rightarrow> now | Some t \<Rightarrow> if t = 0 then now else t),
                transactions = txs, previous_hash = prev, nonce = 0, hash = [] \<rparr>
      in b\<lparr>hash := calculate_hash HB hp b\<rparr>)"

text \<open>
  \<^verbatim>\<open>Block.mine_block\<close>: a search with no bound, so the result is an option and \<open>None\<close>
  is the loop that never ends.
\<close>

definition next_nonce :: "block_hasher \<Rightarrow> heap \<Rightarrow> block \<Rightarrow> block" where
  "next_nonce HB hp b = (let b1 = b\<lparr>nonce := nonce b + 1\<rparr> in b1\<lparr>hash := calculate_hash HB hp b1\<rparr>)"

partial_function (option) mine_block :: "block_hasher \<Rightarrow> heap \<Rightarrow> int \<Rightarrow> block \<Rightarrow> block option" where
  "mine_block HB hp d b =
     (if py_prefix d (hash b) \<noteq> py_zeros d then mine_block HB hp d (next_nonce HB hp b)
      else Some b)"

text \<open>
  What a finished search relates: the block given and the block returned.
\<close>

definition mined :: "block_hasher \<Rightarrow> heap \<Rightarrow> int \<Rightarrow> block \<Rightarrow> block \<Rightarrow> bool" where
  "mined HB hp d b b' \<longleftrightarrow> py_prefix d (hash b') = py_zeros d \<and>
         (hash b = calculate_hash HB hp b \<longrightarrow> hash b' = calculate_hash HB hp b') \<and>
         index b' = index b \<and> block_timestamp b' = block_timestamp b \<and>
         transactions b' = transactions b \<and> previous_hash b' = previous_hash b \<and>
         nonce b \<le> nonce b'"

section \<open>The blockchain (blockchain.py)\<close>

record blockchain =
  chain :: "block list"
  difficulty :: int
  pending_transactions :: "ref list"
  mining_reward :: pyfloat
  transaction_pool :: transaction_pool

text \<open>
  \<^verbatim>\<open>Blockchain.__init__\<close> with \<^verbatim>\<open>create_genesis_block\<close>; \<open>now\<close> is the clock reading the
  genesis block takes.
\<close>

definition create_genesis_block :: "block_hasher \<Rightarrow> heap \<Rightarrow> pyfloat \<Rightarrow> block" where
  "create_genesis_block HB hp now = Block_init HB hp 0 [] ''0'' None now"

definition Blockchain_init :: "block_hasher \<Rightarrow> heap \<Rightarrow> int \<Rightarrow> pyfloat \<Rightarrow> blockchain" where
  "Blockchain_init HB hp d now =
     \<lparr> chain = [create_genesis_block HB hp now], difficulty = d, pending_transactions = [],
       mining_reward = Fin 10, transaction_pool = TransactionPool_init \<rparr>"

text \<open>\<^verbatim>\<open>get_latest_block\<close>: \<^verbatim>\<open>self.chain[-1]\<close> raises on an empty list.\<close>

definition get_latest_block :: "blockchain \<Rightarrow> error + block" where
  "get_latest_block bc = (if chain bc = [] then Inl IndexError else Inr (last (chain bc)))"

text \<open>
  \<^verbatim>\<open>get_balance\<close>: the two \<^verbatim>\<open>if\<close>s of the loop body are independent, so a transaction
  from an address to itself is credited and debited.
\<close>

definition balance_step :: "string \<Rightarrow> transaction \<Rightarrow> pyfloat \<Rightarrow> pyfloat" where
  "balance_step address t balance =
     (let b1 = (if recipient_address t = address then balance + amount t else balance)
      in if sender_address t = address then b1 - (amount t + fee t) else b1)"

definition get_balance :: "heap \<Rightarrow> blockchain \<Rightarrow> string \<Rightarrow> pyfloat" where
  "get_balance hp bc address =
     fold (\<lambda>blk balance. fold (\<lambda>r. balance_step address (hp r)) (transactions blk) balance)
       (chain bc) 0"

text \<open>
  \<^verbatim>\<open>Blockchain.add_transaction\<close>. The result is the blockchain as the call leaves it and
  either the exception raised or the value returned.
\<close>

definition add_transaction :: "heap \<Rightarrow> blockchain \<Rightarrow> ref \<Rightarrow> blockchain \<times> (error + bool)" where
  "add_transaction hp bc r =
     (case is_valid (hp r) of
        (False, msg) \<Rightarrow> (bc, Inl (InvalidTransaction msg))
      | (True, msg) \<Rightarrow>
          (let sender_balance = get_balance hp bc (sender_address (hp r));
               required_amount = amount (hp r) + fee (hp r)
           in if sender_balance < required_amount then
                (bc, Inl (InsufficientBalance sender_balance required_amount))
              else
                (case pool_add_transaction hp (transaction_pool bc) r of
                   (pool1, Inl e) \<Rightarrow> (bc\<lparr>transaction_pool := pool1\<rparr>, Inl e)
                 | (pool1, Inr v) \<Rightarrow>
                     (bc\<lparr>transaction_pool := pool1,
                         pending_transactions := pending_transactions bc @ [r]\<rparr>, Inr True))))"

text \<open>
  The three clock readings of one call of \<^verbatim>\<open>mine_pending_transactions\<close>: the reward
  transaction's timestamp, \<^verbatim>\<open>int(time.time())\<close> in the reward's id, and the block's
  timestamp.
\<close>

record clock =
  reward_time :: pyfloat
  reward_id_time :: int
  block_time :: pyfloat

definition reward_transaction :: "blockchain \<Rightarrow> string \<Rightarrow> clock \<Rightarrow> transaction" where
  "reward_transaction bc mining_reward_address clk =
     (Transaction_init ''system'' mining_reward_address (mining_reward bc) (Fin 0)
        ''Mining reward'' (reward_time clk))
       \<lparr> transaction_id := Some (''reward_'' @ py_str_int (reward_id_time clk)),
         signature := Some ''system_signature'',
         status := ''confirmed'' \<rparr>"

text \<open>
  The loop \<^verbatim>\<open>for tx in self.pending_transactions: confirm_transaction(tx.transaction_id)\<close>.
\<close>

fun confirm_all :: "heap \<Rightarrow> transaction_pool \<Rightarrow> ref list \<Rightarrow> heap \<times> transaction_pool" where
  "confirm_all hp pool [] = (hp, pool)"
| "confirm_all hp pool (r # rs) =
     (case confirm_transaction hp pool (transaction_id (hp r)) of
        (hp1, pool1, found) \<Rightarrow> confirm_all hp1 pool1 rs)"

definition mine_pending_transactions ::
  "block_hasher \<Rightarrow> clock \<Rightarrow> store \<Rightarrow> blockchain \<Rightarrow> string \<Rightarrow>
     (store \<times> blockchain \<times> (error + bool)) option" where
  "mine_pending_transactions HB clk st bc mining_reward_address =
     (if pending_transactions bc = [] then Some (st, bc, Inr False)
      else
        (case alloc st (reward_transaction bc mining_reward_address clk) of
           (reward_ref, st1) \<Rightarrow>
             (let transactions_to_mine = pending_transactions bc @ [reward_ref] in
              case get_latest_block bc of
                Inl e \<Rightarrow> Some (st1, bc, Inl e)
              | Inr latest \<Rightarrow>
                  (case mine_block HB (objs st1) (difficulty bc)
                          (Block_init HB (objs st1) (length (chain bc)) transactions_to_mine
                             (hash latest) None (block_time clk)) of
                     None \<Rightarrow> None
                   | Some new_block \<Rightarrow>
                       (case confirm_all (objs st1) (transaction_pool bc) (pending_transactions bc) of
                          (hp2, pool2) \<Rightarrow>
                            Some (st1\<lparr>objs := hp2\<rparr>,
                                  bc\<lparr>chain := chain bc @ [new_block],
                                     transaction_pool := pool2,
                                     pending_transactions := []\<rparr>,
                                  Inr True))))))"

text \<open>
  \<^verbatim>\<open>is_chain_valid\<close>: the loop over \<^verbatim>\<open>range(1, len(self.chain))\<close>, with the index, the
  previous block and the blocks still to check.
\<close>

fun check_blocks :: "block_hasher \<Rightarrow> heap \<Rightarrow> int \<Rightarrow> nat \<Rightarrow> block \<Rightarrow> block list \<Rightarrow> bool \<times> string" where
  "check_blocks HB hp d i previous_block [] = (True, ''Blockchain is valid'')"
| "check_blocks HB hp d i previous_block (current_block # rest) =
     (if hash current_block \<noteq> calculate_hash HB hp current_block then
        (False, ''Invalid hash at block '' @ py_str_nat i)
      else if previous_hash current_block \<noteq> hash previous_block then
        (False, ''Invalid previous hash at block '' @ py_str_nat i)
      else if py_prefix d (hash current_block) \<noteq> py_zeros d then
        (False, ''Block '' @ py_str_nat i @ '' not properly mined'')
      else check_blocks HB hp d (Suc i) current_block rest)"

definition is_chain_valid :: "block_hasher \<Rightarrow> heap \<Rightarrow> blockchain \<Rightarrow> bool \<times> string" where
  "is_chain_valid HB hp bc =
     (case chain bc of
        [] \<Rightarrow> (True, ''Blockchain is valid'')
      | genesis # rest \<Rightarrow> check_blocks HB hp (difficulty bc) 1 genesis rest)"

section \<open>The balance as the specification states it\<close>










section \<open>Example objects\<close>

text \<open>
  A store and a chain in which \<open>alice\<close> holds a confirmed balance of 5: the block at index 1
  has one transaction, which credits her. References 3 to 6 are transactions a caller has
  built: three signed payments of hers, and one that was never signed.
\<close>

definition ex_funding :: transaction where
  "ex_funding = \<lparr> transaction_id = Some ''reward_1'', sender_address = ''system'',
     recipient_address = ''alice'', amount = Fin 5, fee = Fin 0, message = ''Mining reward'',
     timestamp = Fin 1, signature = Some ''system_signature'', status = ''confirmed'' \<rparr>"

definition ex_payment :: transaction where
  "ex_payment = \<lparr> transaction_id = Some ''tx1'', sender_address = ''alice'',
     recipient_address = ''bob'', amount = Fin 4, fee = Fin 2, message = [],
     timestamp = Fin 2, signature = Some ''sig1'', status = ''pending'' \<rparr>"

definition ex_small :: transaction where
  "ex_small = \<lparr> transaction_id = Some ''tx2'', sender_address = ''alice'',
     recipient_address = ''bob'', amount = Fin 3, fee = Fin 1, message = [],
     timestamp = Fin 3, signature = Some ''sig2'', status = ''pending'' \<rparr>"

definition ex_other :: transaction where
  "ex_other = \<lparr> transaction_id = Some ''tx3'', sender_address = ''alice'',
     recipient_address = ''carol'', amount = Fin 4, fee = Fin 1, message = [],
     timestamp = Fin 4, signature = Some ''sig3'', status = ''pending'' \<rparr>"

definition ex_unsigned :: transaction where
  "ex_unsigned = Transaction_init ''alice'' ''bob'' (Fin 1) default_fee [] (Fin 5)"

definition ex_heap :: heap where
  "ex_heap = (\<lambda>r. Transaction_init [] [] (Fin 0) (Fin 0) [] (Fin 0))
     (2 := ex_funding, 3 := ex_payment, 4 := ex_small, 5 := ex_other, 6 := ex_unsigned)"

definition ex_chain :: "block list" where
  "ex_chain =
     [\<lparr> index = 0, block_timestamp = Fin 1, transactions = [], previous_hash = ''0'',
        nonce = 0, hash = ''00a'' \<rparr>,
      \<lparr> index = 1, block_timestamp = Fin 1, transactions = [2], previous_hash = ''00a'',
        nonce = 7, hash = ''00b'' \<rparr>]"

definition ex_bc :: blockchain where
  "ex_bc = \<lparr> chain = ex_chain, difficulty = 2, pending_transactions = [],
     mining_reward = Fin 10, transaction_pool = TransactionPool_init \<rparr>"

definition ex_verify :: "nat \<Rightarrow> tx_data \<Rightarrow> string \<Rightarrow> bool" where
  "ex_verify public_key data sg = (sg = ''sig2'')"

definition ex_forged :: transaction where
  "ex_forged = ex_small\<lparr>transaction_id := Some ''tx2'', signature := Some ''forged''\<rparr>"

definition ex_bc1 :: blockchain where
  "ex_bc1 = ex_bc\<lparr>transaction_pool := TransactionPool_init\<lparr>pool_transactions := [4]\<rparr>,
                  pending_transactions := [4]\<rparr>"

definition ex_zero_amount :: transaction where
  "ex_zero_amount = ex_small\<lparr>amount := Fin 0\<rparr>"

text \<open>
  A block hash, a transaction hash and two signers for the examples: \<open>ex_hash\<close> starts
  with two zeros from nonce 2 on and, like the hash of the source, depends on the status
  of the block's transactions; \<open>ex_sign\<close> depends on the draw and \<open>det_sign\<close> does not.
  Then a run from the genesis state: a signed transaction whose amount is NaN, the chain
  after it is accepted, and the store and chain after mining.
\<close>

definition ex_hash :: block_hasher where
  "ex_hash data =
     (case data of (i, ts, txs, prev, n) \<Rightarrow>
        (if n < 2 then ''f'' else ''00'') @ py_str_nat i @ concat (map status txs))"

definition ex_tx_hash :: "tx_data \<Rightarrow> string" where
  "ex_tx_hash data = (case data of (s, r, a, f, m, t) \<Rightarrow> ''id:'' @ s @ ''>'' @ r)"

definition ex_sign :: signer where
  "ex_sign private_key data draw = ''sig'' @ py_str_nat private_key @ ''.'' @ py_str_nat draw"

definition nan_payment :: transaction where
  "nan_payment = sign_transaction ex_sign ex_tx_hash 7 1
     (Transaction_init ''alice'' ''bob'' NaN default_fee [] (Fin 100))"

definition nan_store :: store where
  "nan_store = \<lparr> objs = (\<lambda>r. Transaction_init [] [] (Fin 0) (Fin 0) [] (Fin 0))(2 := nan_payment),
                 next_ref = 3 \<rparr>"

definition nan_genesis :: blockchain where
  "nan_genesis = Blockchain_init ex_hash (objs nan_store) 2 (Fin 50)"

definition nan_clock :: clock where
  "nan_clock = \<lparr> reward_time = Fin 200, reward_id_time = 200, block_time = Fin 201 \<rparr>"

definition nan_bc1 :: blockchain where
  "nan_bc1 = nan_genesis\<lparr>transaction_pool := TransactionPool_init\<lparr>pool_transactions := [2]\<rparr>,
                         pending_transactions := [2]\<rparr>"

definition nan_reward :: transaction where
  "nan_reward = \<lparr> transaction_id = Some ''reward_200'', sender_address = ''system'',
     recipient_address = ''miner'', amount = Fin 10, fee = Fin 0, message = ''Mining reward'',
     timestamp = Fin 200, signature = Some ''system_signature'', status = ''confirmed'' \<rparr>"

definition nan_heap1 :: heap where
  "nan_heap1 = (objs nan_store)(3 := nan_reward)"

definition nan_block :: block where
  "nan_block = \<lparr> index = 1, block_timestamp = Fin 201, transactions = [2, 3],
     previous_hash = ''f0'', nonce = 2, hash = ''001pendingconfirmed'' \<rparr>"

definition nan_heap2 :: heap where
  "nan_heap2 = nan_heap1(2 := nan_payment\<lparr>status := ''confirmed''\<rparr>)"

definition nan_bc2 :: blockchain where
  "nan_bc2 = nan_bc1\<lparr>chain := chain nan_bc1 @ [nan_block],
     transaction_pool := \<lparr> pool_transactions = [], confirmed_transactions = [2] \<rparr>,
     pending_transactions := []\<rparr>"

definition det_sign :: signer where
  "det_sign private_key data draw = ''sig'' @ py_str_nat private_key"

text \<open>
  A caller submitting transactions one after the other, keeping each result, and the
  blockchain after a list of transactions has been added to the pool and the queue.
\<close>

fun submit_all :: "heap \<Rightarrow> blockchain \<Rightarrow> ref list \<Rightarrow> blockchain \<times> (error + bool) list" where
  "submit_all hp bc [] = (bc, [])"
| "submit_all hp bc (r # rs) =
     (case add_transaction hp bc r of
        (bc1, res) \<Rightarrow> (case submit_all hp bc1 rs of (bc2, ress) \<Rightarrow> (bc2, res # ress)))"

definition enqueue :: "blockchain \<Rightarrow> ref list \<Rightarrow> blockchain" where
  "enqueue bc rs =
     bc\<lparr>transaction_pool :=
          (transaction_pool bc)\<lparr>pool_transactions := pool_transactions (transaction_pool bc) @ rs\<rparr>,
        pending_transactions := pending_transactions bc @ rs\<rparr>"







section \<open>Rounding\<close>

text \<open>
  \<open>round_half_even\<close> gives an integer at distance at most one half, and \<open>floor_log2\<close>
  the exponent of the power of two at or below a positive rational. So a finite result of
  \<open>round_double\<close> is a multiple of the unit \<open>2\<^sup>e\<close> at distance at most half a unit from the
  rational given.
\<close>

lemma round_half_even_near: "\<bar>x - of_int (round_half_even x)\<bar> \<le> 1 / 2"
proof -
  have "of_int \<lfloor>x\<rfloor> \<le> x" and "x < of_int \<lfloor>x\<rfloor> + 1" by linarith+
  then show ?thesis by (auto simp: round_half_even_def Let_def)
qed

lemma floor_log2_bounds:
  assumes "0 < a"
  shows "power_int 2 (floor_log2 a) \<le> a" and "a < power_int 2 (floor_log2 a + 1)"
proof -
  obtain p d where q: "quotient_of a = (p, d)" by (cases "quotient_of a")
  then have d: "0 < d" by (rule quotient_of_denom_pos)
  from q have a: "a = of_int p / of_int d" by (rule quotient_of_div)
  from assms d have p: "0 < p" unfolding a by (simp add: zero_less_divide_iff)
  let ?k = "bitlen p - bitlen d"
  from p have bp: "1 \<le> bitlen p" by (simp add: bitlen_alt_def)
  from d have bd: "1 \<le> bitlen d" by (simp add: bitlen_alt_def)
  from bitlen_bounds [OF p] have p1: "2 ^ nat (bitlen p - 1) \<le> p" and p2: "p < 2 ^ nat (bitlen p)"
    by simp_all
  from bitlen_bounds [OF d] have d1: "2 ^ nat (bitlen d - 1) \<le> d" and d2: "d < 2 ^ nat (bitlen d)"
    by simp_all
  have P1: "power_int (2::rat) (bitlen p - 1) \<le> of_int p"
  proof -
    from p1 have "(of_int (2 ^ nat (bitlen p - 1)) :: rat) \<le> of_int p" by (simp only: of_int_le_iff)
    with bp show ?thesis by (simp add: power_int_def)
  qed
  have P2: "of_int p < power_int (2::rat) (bitlen p)"
  proof -
    from p2 have "(of_int p :: rat) < of_int (2 ^ nat (bitlen p))" by (simp only: of_int_less_iff)
    with bp show ?thesis by (simp add: power_int_def)
  qed
  have D1: "power_int (2::rat) (bitlen d - 1) \<le> of_int d"
  proof -
    from d1 have "(of_int (2 ^ nat (bitlen d - 1)) :: rat) \<le> of_int d" by (simp only: of_int_le_iff)
    with bd show ?thesis by (simp add: power_int_def)
  qed
  have D2: "of_int d < power_int (2::rat) (bitlen d)"
  proof -
    from d2 have "(of_int d :: rat) < of_int (2 ^ nat (bitlen d))" by (simp only: of_int_less_iff)
    with bd show ?thesis by (simp add: power_int_def)
  qed
  have dpos: "(0::rat) < of_int d" using d by simp
  have ppos: "(0::rat) < of_int p" using p by simp
  have lo: "power_int 2 (?k - 1) \<le> a"
  proof -
    have "?k - 1 = (bitlen p - 1) - bitlen d" by simp
    then have "power_int (2::rat) (?k - 1) = power_int 2 (bitlen p - 1) / power_int 2 (bitlen d)"
      by (simp only: power_int_diff [of "2::rat", simplified])
    also have "\<dots> \<le> of_int p / power_int 2 (bitlen d)"
      using P1 by (simp add: divide_right_mono)
    also have "\<dots> \<le> of_int p / of_int d"
      using D2 dpos ppos by (simp add: frac_le)
    finally show ?thesis unfolding a .
  qed
  have hi: "a < power_int 2 (?k + 1)"
  proof -
    have "a = of_int p / of_int d" by (rule a)
    also have "\<dots> < power_int 2 (bitlen p) / of_int d"
      using P2 dpos by (simp add: divide_strict_right_mono)
    also have "\<dots> \<le> power_int 2 (bitlen p) / power_int 2 (bitlen d - 1)"
      using D1 by (simp add: frac_le)
    also have "\<dots> = power_int (2::rat) (bitlen p - (bitlen d - 1))"
      by (simp only: power_int_diff [of "2::rat", simplified])
    also have "bitlen p - (bitlen d - 1) = ?k + 1" by simp
    finally show ?thesis .
  qed
  have hi': "power_int (2::rat) ?k \<le> power_int 2 (?k + 1)"
    by (rule power_int_increasing) simp_all
  show "power_int 2 (floor_log2 a) \<le> a"
    using lo by (simp add: floor_log2_def q Let_def)
  show "a < power_int 2 (floor_log2 a + 1)"
    using hi by (auto simp: floor_log2_def q Let_def not_le)
qed

lemma round_double_near:
  assumes "round_double q = Fin r"
  shows "\<exists>m. r = of_int m * power_int 2 (max (- 1074) (floor_log2 \<bar>q\<bar> - 52)) \<and>
             \<bar>r - q\<bar> \<le> power_int 2 (max (- 1074) (floor_log2 \<bar>q\<bar> - 52)) / 2"
proof (cases "q = 0")
  case True
  with assms have "r = 0" by (simp add: round_double_def)
  with True show ?thesis by (intro exI [of _ 0]) simp
next
  case False
  define u :: rat where "u = power_int 2 (max (- 1074) (floor_log2 \<bar>q\<bar> - 52))"
  define m where "m = round_half_even (\<bar>q\<bar> / u)"
  have u: "0 < u" by (simp add: u_def zero_less_power_int)
  from assms False have r: "r = sgn q * (of_int m * u)"
    by (simp add: round_double_def Let_def u_def m_def split: if_splits)
  have "\<bar>\<bar>q\<bar> / u - of_int m\<bar> \<le> 1 / 2" unfolding m_def by (rule round_half_even_near)
  then have "\<bar>\<bar>q\<bar> / u - of_int m\<bar> * u \<le> 1 / 2 * u" using u by (simp only: mult_right_mono less_imp_le)
  also have "\<bar>\<bar>q\<bar> / u - of_int m\<bar> * u = \<bar>(\<bar>q\<bar> / u - of_int m) * u\<bar>"
    using u by (simp add: abs_mult)
  also have "(\<bar>q\<bar> / u - of_int m) * u = \<bar>q\<bar> - of_int m * u"
    using u by (simp add: field_simps)
  finally have near: "\<bar>\<bar>q\<bar> - of_int m * u\<bar> \<le> u / 2" by simp
  have "sgn q * \<bar>q\<bar> = q" by (rule sgn_mult_abs)
  then have "r - q = sgn q * (of_int m * u - \<bar>q\<bar>)"
    unfolding r by (simp add: right_diff_distrib)
  then have "\<bar>r - q\<bar> = \<bar>of_int m * u - \<bar>q\<bar>\<bar>"
    using False by (simp add: abs_mult abs_sgn_eq)
  with near have d: "\<bar>r - q\<bar> \<le> u / 2" by (simp add: abs_minus_commute)
  have "r = of_int ((if 0 < q then 1 else - 1) * m) * u"
    unfolding r using False by (simp add: sgn_if)
  with d show ?thesis unfolding u_def by blast
qed

text \<open>
  Whole numbers up to \<open>2\<^sup>5\<^sup>3\<close> in magnitude are binary64 numbers: rounding leaves them as
  they are.
\<close>

lemma round_half_even_int: "round_half_even (of_int j) = j"
  by (simp add: round_half_even_def)

lemma bitlen_one: "bitlen 1 = 1"
  by (simp add: bitlen_alt_def)

lemma floor_log2_int:
  assumes "0 < n"
  shows "floor_log2 (of_int n) = bitlen n - 1"
proof -
  from assms have b: "1 \<le> bitlen n" by (simp add: bitlen_alt_def)
  from bitlen_bounds [OF assms] have "2 ^ nat (bitlen n - 1) \<le> n" ..
  then have "(of_int (2 ^ nat (bitlen n - 1)) :: rat) \<le> of_int n" by (simp only: of_int_le_iff)
  then have "(2::rat) ^ nat (bitlen n - 1) \<le> of_int n" by simp
  with b have "power_int (2::rat) (bitlen n - 1) \<le> of_int n" by (simp add: power_int_def)
  then show ?thesis
    by (simp add: floor_log2_def quotient_of_int bitlen_one Let_def)
qed

lemma div_power_int_nonpos:
  assumes "e \<le> 0"
  shows "(x::rat) / power_int 2 e = x * 2 ^ nat (- e)"
proof (cases "e = 0")
  case True
  then show ?thesis by simp
next
  case False
  with assms have "power_int (2::rat) e = inverse (2 ^ nat (- e))"
    by (simp add: power_int_def power_one_over inverse_eq_divide)
  then show ?thesis by (simp add: divide_inverse)
qed

lemma round_double_pos_int:
  assumes "0 < n" and "n \<le> 2 ^ 53"
  shows "round_double (of_int n) = Fin (of_int n)"
proof -
  let ?L = "bitlen n - 1"
  let ?e = "max (- 1074) (?L - 52)"
  from assms(1) have b: "1 \<le> bitlen n" by (simp add: bitlen_alt_def)
  from assms(2) have "n < 2 ^ nat 54" by simp
  then have "bitlen n \<le> 54" by (simp add: bitlen_le_iff_power)
  then have e1: "?e \<le> 1" by simp
  have int: "\<exists>j. (of_int n :: rat) / power_int 2 ?e = of_int j"
  proof (cases "?e \<le> 0")
    case True
    then have "(of_int n :: rat) / power_int 2 ?e = of_int n * 2 ^ nat (- ?e)"
      by (rule div_power_int_nonpos)
    also have "\<dots> = of_int (n * 2 ^ nat (- ?e))" by simp
    finally show ?thesis by blast
  next
    case False
    with e1 have e: "?e = 1" by simp
    then have "bitlen n = 54" using \<open>bitlen n \<le> 54\<close> by simp
    with bitlen_bounds [OF assms(1)] have "2 ^ 53 \<le> n" by simp
    with assms(2) have n: "n = 2 ^ 53" by simp
    have "(of_int n :: rat) / power_int 2 1 = of_int (2 ^ 52)" unfolding n by simp
    with e show ?thesis by metis
  qed
  then obtain j where j: "(of_int n :: rat) / power_int 2 ?e = of_int j" ..
  have nz: "power_int (2::rat) ?e \<noteq> 0" by simp
  from j nz have r: "of_int j * power_int 2 ?e = (of_int n :: rat)"
    by (metis nonzero_divide_eq_eq)
  have "(of_int n :: rat) \<le> of_int (2 ^ 53)" using assms(2) by (simp only: of_int_le_iff)
  then have small: "\<not> (2::rat) ^ 1024 \<le> of_int n" by simp
  from assms(1) have pos: "(0::rat) < of_int n" by simp
  then have abs: "\<bar>of_int n :: rat\<bar> = of_int n" by simp
  from pos have ne: "(of_int n :: rat) \<noteq> 0" by simp
  show ?thesis
    unfolding round_double_def abs floor_log2_int [OF assms(1)] Let_def j round_half_even_int r
    using ne small pos by simp
qed

lemma round_double_minus: "round_double (- q) = - round_double q"
  by (simp add: round_double_def Let_def)

lemma round_double_int:
  assumes "\<bar>k\<bar> \<le> 2 ^ 53"
  shows "round_double (of_int k) = Fin (of_int k)"
proof -
  consider "k = 0" | "0 < k" | "k < 0" by linarith
  then show ?thesis
  proof cases
    case 1
    then show ?thesis by (simp add: round_double_def)
  next
    case 2
    with assms show ?thesis by (simp add: round_double_pos_int)
  next
    case 3
    with assms have "round_double (of_int (- k)) = Fin (of_int (- k))"
      by (intro round_double_pos_int) simp_all
    then have "- round_double (of_int k) = Fin (- of_int k)"
      by (simp add: round_double_minus)
    then show ?thesis by (cases "round_double (of_int k)") simp_all
  qed
qed

lemma round_double_zero [simp]: "round_double 0 = Fin 0"
  by (simp add: round_double_def)

lemma round_double_one [simp]: "round_double 1 = Fin 1"
  using round_double_int [of 1] by simp

lemma round_double_numeral [simp]:
  "numeral n \<le> (9007199254740992::int) \<Longrightarrow> round_double (numeral n) = Fin (numeral n)"
  using round_double_int [of "numeral n"] by simp

lemma round_double_neg_one [simp]: "round_double (- 1) = Fin (- 1)"
  using round_double_int [of "- 1"] by simp

lemma round_double_neg_numeral [simp]:
  "numeral n \<le> (9007199254740992::int) \<Longrightarrow> round_double (- numeral n) = Fin (- numeral n)"
  using round_double_int [of "- numeral n"] by simp

text \<open>
  Beyond that rounding shows: the sum of \<open>2\<^sup>1\<^sup>0\<^sup>2\<^sup>3\<close> with itself is an infinity, the default fee
  is not 1/1000, and adding 1 to \<open>10\<^sup>1\<^sup>6\<close> changes nothing.
\<close>

lemma overflow_example: "Fin (2 ^ 1023) + Fin (2 ^ 1023) = PInf"
proof -
  define q :: rat where "q = of_int (2 ^ 1024)"
  have s: "(2::rat) ^ 1023 + 2 ^ 1023 = q" by (simp add: q_def)
  have b: "bitlen (2 ^ 1024) = 1025"
    using bitlen_pow2 [of 1 1024] by (simp add: bitlen_one)
  have pos: "0 < q" by (simp add: q_def)
  then have abs: "\<bar>q\<bar> = q" by simp
  have e: "max (- 1074) (floor_log2 q - 52) = 972"
    unfolding q_def using floor_log2_int [of "2 ^ 1024"] b by simp
  have m: "q / power_int 2 972 = of_int (2 ^ 52)" by (simp add: q_def)
  have r: "of_int (2 ^ 52) * power_int 2 972 = q" by (simp add: q_def)
  have big: "2 ^ 1024 \<le> q" by (simp add: q_def)
  from pos have ne: "q \<noteq> 0" by simp
  have "round_double q = PInf"
    unfolding round_double_def Let_def abs e m round_half_even_int r
    using ne big pos by simp
  then show ?thesis by (simp only: plus_pyfloat.simps s)
qed

lemma default_fee_eq: "default_fee = Fin (1152921504606847 / 1152921504606846976)"
  by code_simp



section \<open>Basic facts\<close>

lemma pos_not_le_zero: "(0::pyfloat) < x \<Longrightarrow> \<not> x \<le> 0"
  by (cases x) (simp_all add: zero_pyfloat_def)

lemma nonneg_not_less_zero: "(0::pyfloat) \<le> x \<Longrightarrow> \<not> x < 0"
  by (cases x) (simp_all add: zero_pyfloat_def)

lemma le_not_less: "(x::pyfloat) \<le> y \<Longrightarrow> \<not> y < x"
  by (cases x; cases y) simp_all

lemma ex_heap_2: "ex_heap 2 = ex_funding"
  by (simp add: ex_heap_def)

lemma ex_heap_3: "ex_heap 3 = ex_payment"
  by (simp add: ex_heap_def)

lemma ex_heap_4: "ex_heap 4 = ex_small"
  by (simp add: ex_heap_def)

lemma ex_heap_5: "ex_heap 5 = ex_other"
  by (simp add: ex_heap_def)

lemma ex_heap_6: "ex_heap 6 = ex_unsigned"
  by (simp add: ex_heap_def)

lemma ex_balance: "get_balance ex_heap ex_bc ''alice'' = Fin 5"
  by (simp add: get_balance_def ex_bc_def ex_chain_def ex_heap_2 ex_funding_def balance_step_def
        zero_pyfloat_def)

lemma ex_payment_valid: "is_valid ex_payment = (True, ''Transaction is valid'')"
  by (simp add: is_valid_def ex_payment_def zero_pyfloat_def truthy_def)

lemma ex_small_valid: "is_valid ex_small = (True, ''Transaction is valid'')"
  by (simp add: is_valid_def ex_small_def zero_pyfloat_def truthy_def)

lemma ex_other_valid: "is_valid ex_other = (True, ''Transaction is valid'')"
  by (simp add: is_valid_def ex_other_def zero_pyfloat_def truthy_def)

lemma ex_unsigned_invalid: "is_valid ex_unsigned = (False, ''Transaction not signed'')"
  by (simp add: is_valid_def ex_unsigned_def Transaction_init_def zero_pyfloat_def truthy_def
        default_fee_eq)

section \<open>Admission of transactions\<close>

text \<open>
  C4. For a structurally valid transaction, \<open>add_transaction\<close> raises the insufficient
  balance error exactly when the sender's balance on the chain is less than amount plus
  fee; a balance equal to amount plus fee passes the check.
\<close>

theorem add_transaction_insufficient_balance:
  assumes "fst (is_valid (hp r))"
  shows "(\<exists>a q. snd (add_transaction hp bc r) = Inl (InsufficientBalance a q)) \<longleftrightarrow>
         get_balance hp bc (sender_address (hp r)) < amount (hp r) + fee (hp r)"
proof -
  obtain msg where v: "is_valid (hp r) = (True, msg)"
    using assms by (cases "is_valid (hp r)") auto
  show ?thesis
    by (simp add: add_transaction_def pool_add_transaction_def v Let_def)
qed

text \<open>
  The sender holds 5 and sends 4 with a fee of 2: the transaction is rejected for
  insufficient balance.
\<close>

theorem add_transaction_insufficient_balance_witness:
  "fst (is_valid (ex_heap 3)) \<and>
   get_balance ex_heap ex_bc (sender_address (ex_heap 3)) = Fin 5 \<and>
   amount (ex_heap 3) = Fin 4 \<and> fee (ex_heap 3) = Fin 2 \<and>
   (\<exists>a q. snd (add_transaction ex_heap ex_bc 3) = Inl (InsufficientBalance a q))"
proof -
  have v: "fst (is_valid (ex_heap 3))" by (simp add: ex_heap_3 ex_payment_valid)
  have s: "sender_address (ex_heap 3) = ''alice''" by (simp add: ex_heap_3 ex_payment_def)
  have a: "amount (ex_heap 3) = Fin 4" by (simp add: ex_heap_3 ex_payment_def)
  have f: "fee (ex_heap 3) = Fin 2" by (simp add: ex_heap_3 ex_payment_def)
  have b: "get_balance ex_heap ex_bc (sender_address (ex_heap 3)) = Fin 5"
    by (simp only: s ex_balance)
  have "get_balance ex_heap ex_bc (sender_address (ex_heap 3)) < amount (ex_heap 3) + fee (ex_heap 3)"
    by (simp only: b a f) simp
  with add_transaction_insufficient_balance [of ex_heap 3 ex_bc] v
  have "\<exists>a q. snd (add_transaction ex_heap ex_bc 3) = Inl (InsufficientBalance a q)" by (simp only:)
  with v b a f show ?thesis by (intro conjI)
qed

lemma ex_add_rejected:
  "add_transaction ex_heap ex_bc 3 = (ex_bc, Inl (InsufficientBalance (Fin 5) (Fin 6)))"
proof -
  have s: "sender_address ex_payment = ''alice''" by (simp add: ex_payment_def)
  have q: "amount ex_payment + fee ex_payment = Fin 6" by (simp add: ex_payment_def)
  show ?thesis
    by (simp add: add_transaction_def ex_heap_3 ex_payment_valid s q ex_balance)
qed

lemma ex_pool_add_rejected:
  "pool_add_transaction ex_heap TransactionPool_init 6 =
     (TransactionPool_init, Inl (InvalidTransaction ''Transaction not signed''))"
  by (simp add: pool_add_transaction_def ex_heap_6 ex_unsigned_invalid)

text \<open>
  C6. When \<open>add_transaction\<close> raises, whatever the reason, the blockchain (chain, pending
  queue, and both lists of the pool) is as it was before the call; the same holds for the
  pool's own \<open>add_transaction\<close>.
\<close>

theorem add_transaction_atomic:
  "(snd (add_transaction hp bc r) = Inl e \<longrightarrow> fst (add_transaction hp bc r) = bc) \<and>
   (snd (pool_add_transaction hp pool r) = Inl e \<longrightarrow> fst (pool_add_transaction hp pool r) = pool)"
proof (intro conjI impI)
  assume "snd (add_transaction hp bc r) = Inl e"
  then show "fst (add_transaction hp bc r) = bc"
    by (cases "is_valid (hp r)")
       (auto simp: add_transaction_def pool_add_transaction_def Let_def
             split: if_splits bool.splits)
next
  assume "snd (pool_add_transaction hp pool r) = Inl e"
  then show "fst (pool_add_transaction hp pool r) = pool"
    by (cases "is_valid (hp r)")
       (auto simp: pool_add_transaction_def split: if_splits bool.splits)
qed

theorem add_transaction_atomic_witness:
  "snd (add_transaction ex_heap ex_bc 3) = Inl (InsufficientBalance (Fin 5) (Fin 6)) \<and>
   fst (add_transaction ex_heap ex_bc 3) = ex_bc \<and>
   snd (pool_add_transaction ex_heap TransactionPool_init 6) =
     Inl (InvalidTransaction ''Transaction not signed'') \<and>
   fst (pool_add_transaction ex_heap TransactionPool_init 6) = TransactionPool_init"
proof -
  have a: "snd (add_transaction ex_heap ex_bc 3) = Inl (InsufficientBalance (Fin 5) (Fin 6))"
    by (simp add: ex_add_rejected)
  have b: "snd (pool_add_transaction ex_heap TransactionPool_init 6) =
     Inl (InvalidTransaction ''Transaction not signed'')"
    by (simp add: ex_pool_add_rejected)
  from a add_transaction_atomic [of ex_heap ex_bc 3 "InsufficientBalance (Fin 5) (Fin 6)"]
  have c: "fst (add_transaction ex_heap ex_bc 3) = ex_bc" by (simp only:)
  from b add_transaction_atomic [of ex_heap ex_bc 6
      "InvalidTransaction ''Transaction not signed''" TransactionPool_init]
  have d: "fst (pool_add_transaction ex_heap TransactionPool_init 6) = TransactionPool_init"
    by (simp only:)
  from a c b d show ?thesis by (intro conjI)
qed

lemma balance_step_fields:
  "sender_address t = sender_address t' \<Longrightarrow> recipient_address t = recipient_address t' \<Longrightarrow>
   amount t = amount t' \<Longrightarrow> fee t = fee t' \<Longrightarrow> balance_step a t = balance_step a t'"
  by (simp add: balance_step_def fun_eq_iff)

lemma get_balance_fields:
  assumes "\<And>x. sender_address (hp x) = sender_address (hp' x) \<and>
                recipient_address (hp x) = recipient_address (hp' x) \<and>
                amount (hp x) = amount (hp' x) \<and> fee (hp x) = fee (hp' x)"
  shows "get_balance hp bc a = get_balance hp' bc a"
proof -
  have "balance_step a (hp x) = balance_step a (hp' x)" for x
    by (rule balance_step_fields) (simp_all add: assms)
  then show ?thesis by (simp add: get_balance_def)
qed

lemma add_transaction_fields:
  assumes f: "\<And>x. sender_address (hp x) = sender_address (hp' x) \<and>
                recipient_address (hp x) = recipient_address (hp' x) \<and>
                amount (hp x) = amount (hp' x) \<and> fee (hp x) = fee (hp' x) \<and>
                transaction_id (hp x) = transaction_id (hp' x)"
      and v: "is_valid (hp r) = is_valid (hp' r)"
  shows "add_transaction hp bc r = add_transaction hp' bc r"
proof -
  have bal: "get_balance hp bc a = get_balance hp' bc a" for a
    by (rule get_balance_fields) (simp add: f)
  have ids: "(\<lambda>x. transaction_id (hp x) = transaction_id (hp r)) =
             (\<lambda>x. transaction_id (hp' x) = transaction_id (hp' r))"
    by (simp add: f)
  have pool: "pool_add_transaction hp p r = pool_add_transaction hp' p r" for p
    unfolding pool_add_transaction_def ids v ..
  have s: "sender_address (hp r) = sender_address (hp' r)" and a: "amount (hp r) = amount (hp' r)"
    and fe: "fee (hp r) = fee (hp' r)"
    by (simp_all add: f)
  show ?thesis
    unfolding add_transaction_def bal pool v s a fe ..
qed

lemma ex_small_upd: "ex_small\<lparr>transaction_id := Some ''tx2'', signature := Some ''sig2''\<rparr> = ex_small"
  by (simp add: ex_small_def)

lemma ex_add_small:
  "add_transaction ex_heap ex_bc 4 =
     (ex_bc\<lparr>transaction_pool := TransactionPool_init\<lparr>pool_transactions := [4]\<rparr>,
            pending_transactions := [4]\<rparr>, Inr True)"
proof -
  have s: "sender_address ex_small = ''alice''" by (simp add: ex_small_def)
  have q: "amount ex_small + fee ex_small = Fin 4" by (simp add: ex_small_def)
  have p: "transaction_pool ex_bc = TransactionPool_init" "pending_transactions ex_bc = []"
    by (simp_all add: ex_bc_def)
  have e: "pool_transactions TransactionPool_init = []" by (simp add: TransactionPool_init_def)
  show ?thesis
    by (simp add: add_transaction_def pool_add_transaction_def ex_heap_4 ex_small_valid s q
          ex_balance p e)
qed

text \<open>
  C9. A transaction with non-empty, different sender and recipient, a positive amount, a
  fee that is not negative, and any non-empty id and signature passes \<open>is_valid\<close>, and
  \<open>add_transaction\<close> leaves the same blockchain and gives the same result whatever
  the non-empty signature is: neither function, nor the pool, nor mining takes the
  verifier that \<open>verify_signature\<close> needs.
\<close>

theorem acceptance_ignores_signature:
  assumes "sender_address t \<noteq> []" and "recipient_address t \<noteq> []"
      and "sender_address t \<noteq> recipient_address t"
      and "0 < amount t" and "0 \<le> fee t"
      and "i \<noteq> []" and "sg \<noteq> []" and "sg' \<noteq> []"
  shows "fst (is_valid (t\<lparr>transaction_id := Some i, signature := Some sg\<rparr>)) \<and>
         add_transaction (hp(r := t\<lparr>transaction_id := Some i, signature := Some sg\<rparr>)) bc r =
         add_transaction (hp(r := t\<lparr>transaction_id := Some i, signature := Some sg'\<rparr>)) bc r"
proof -
  let ?t1 = "t\<lparr>transaction_id := Some i, signature := Some sg\<rparr>"
  let ?t2 = "t\<lparr>transaction_id := Some i, signature := Some sg'\<rparr>"
  have v1: "is_valid ?t1 = (True, ''Transaction is valid'')"
    using assms by (simp add: is_valid_def truthy_def pos_not_le_zero nonneg_not_less_zero)
  have v2: "is_valid ?t2 = (True, ''Transaction is valid'')"
    using assms by (simp add: is_valid_def truthy_def pos_not_le_zero nonneg_not_less_zero)
  have "add_transaction (hp(r := ?t1)) bc r = add_transaction (hp(r := ?t2)) bc r"
    by (rule add_transaction_fields) (simp_all add: v1 v2)
  moreover have "fst (is_valid ?t1)" by (simp only: v1 fst_conv)
  ultimately show ?thesis by (intro conjI)
qed

text \<open>
  A transaction whose signature the verifier rejects is valid and is accepted exactly as
  the one whose signature verifies.
\<close>

theorem acceptance_ignores_signature_witness:
  "verify_signature ex_verify 1 ex_small \<and>
   \<not> verify_signature ex_verify 1 ex_forged \<and>
   fst (is_valid ex_forged) \<and>
   add_transaction (ex_heap(4 := ex_forged)) ex_bc 4 = add_transaction ex_heap ex_bc 4 \<and>
   snd (add_transaction ex_heap ex_bc 4) = Inr True"
proof -
  have a: "verify_signature ex_verify 1 ex_small"
    by (simp add: verify_signature_def ex_verify_def ex_small_def truthy_def)
  have b: "\<not> verify_signature ex_verify 1 ex_forged"
    by (simp add: verify_signature_def ex_verify_def ex_forged_def truthy_def)
  have h: "ex_heap(4 := ex_small) = ex_heap"
    by (simp add: fun_eq_iff ex_heap_4)
  have "sender_address ex_small \<noteq> []" "recipient_address ex_small \<noteq> []"
       "sender_address ex_small \<noteq> recipient_address ex_small"
       "0 < amount ex_small" "0 \<le> fee ex_small"
    by (simp_all add: ex_small_def zero_pyfloat_def)
  from acceptance_ignores_signature [OF this, of "''tx2''" "''forged''" "''sig2''" ex_heap 4 ex_bc]
  have c: "fst (is_valid ex_forged) \<and>
           add_transaction (ex_heap(4 := ex_forged)) ex_bc 4 = add_transaction ex_heap ex_bc 4"
    by (simp add: ex_forged_def ex_small_upd h)
  have d: "snd (add_transaction ex_heap ex_bc 4) = Inr True"
    by (simp add: ex_add_small)
  from a b c d show ?thesis by (intro conjI) simp_all
qed

text \<open>
  C5, as amended. For a structurally valid transaction, the pool's \<open>add_transaction\<close>
  raises the duplicate error exactly when an entry of the pool's pending list has the same
  \<open>transaction_id\<close>, leaving the pool as it was, and otherwise appends the transaction at
  the end of that list and returns \<open>True\<close>. A transaction that is not structurally valid
  raises the invalid-transaction error with the message of \<open>is_valid\<close>, whether or not
  its id is present, and the pool is left as it was. Hence a structurally valid
  transaction whose sender has the balance for it and whose id no pool entry has is
  accepted by \<open>Blockchain.add_transaction\<close> and, submitted again, rejected as a
  duplicate, with pool and queue as the first call left them.
\<close>

theorem pool_add_transaction_duplicate:
  "(fst (is_valid (hp r)) \<longrightarrow>
      (snd (pool_add_transaction hp pool r) = Inl DuplicateTransaction \<longleftrightarrow>
         list_ex (\<lambda>x. transaction_id (hp x) = transaction_id (hp r)) (pool_transactions pool)) \<and>
      (list_ex (\<lambda>x. transaction_id (hp x) = transaction_id (hp r)) (pool_transactions pool) \<longrightarrow>
         pool_add_transaction hp pool r = (pool, Inl DuplicateTransaction)) \<and>
      (\<not> list_ex (\<lambda>x. transaction_id (hp x) = transaction_id (hp r)) (pool_transactions pool) \<longrightarrow>
         pool_add_transaction hp pool r =
           (pool\<lparr>pool_transactions := pool_transactions pool @ [r]\<rparr>, Inr True))) \<and>
   (\<not> fst (is_valid (hp r)) \<longrightarrow>
      pool_add_transaction hp pool r = (pool, Inl (InvalidTransaction (snd (is_valid (hp r)))))) \<and>
   (fst (is_valid (hp r)) \<and>
    \<not> get_balance hp bc (sender_address (hp r)) < amount (hp r) + fee (hp r) \<and>
    \<not> list_ex (\<lambda>x. transaction_id (hp x) = transaction_id (hp r))
         (pool_transactions (transaction_pool bc)) \<longrightarrow>
      add_transaction hp bc r =
        (bc\<lparr>transaction_pool := (transaction_pool bc)
               \<lparr>pool_transactions := pool_transactions (transaction_pool bc) @ [r]\<rparr>,
            pending_transactions := pending_transactions bc @ [r]\<rparr>, Inr True) \<and>
      add_transaction hp
        (bc\<lparr>transaction_pool := (transaction_pool bc)
               \<lparr>pool_transactions := pool_transactions (transaction_pool bc) @ [r]\<rparr>,
            pending_transactions := pending_transactions bc @ [r]\<rparr>) r =
        (bc\<lparr>transaction_pool := (transaction_pool bc)
               \<lparr>pool_transactions := pool_transactions (transaction_pool bc) @ [r]\<rparr>,
            pending_transactions := pending_transactions bc @ [r]\<rparr>, Inl DuplicateTransaction)) \<and>
   (add_transaction hp bc r = (bc1, Inr True) \<longrightarrow>
      add_transaction hp bc1 r = (bc1, Inl DuplicateTransaction))"
proof -
  let ?dup = "\<lambda>p. list_ex (\<lambda>x. transaction_id (hp x) = transaction_id (hp r)) (pool_transactions p)"
  let ?bc1 = "bc\<lparr>transaction_pool := (transaction_pool bc)
               \<lparr>pool_transactions := pool_transactions (transaction_pool bc) @ [r]\<rparr>,
            pending_transactions := pending_transactions bc @ [r]\<rparr>"
  obtain ok msg where v: "is_valid (hp r) = (ok, msg)" by (cases "is_valid (hp r)")
  have bal: "get_balance hp ?bc1 a = get_balance hp bc a" for a
    by (simp add: get_balance_def)
  have a: "ok \<Longrightarrow> snd (pool_add_transaction hp pool r) = Inl DuplicateTransaction \<longleftrightarrow> ?dup pool"
    by (simp add: pool_add_transaction_def v)
  have b: "ok \<Longrightarrow> ?dup pool \<Longrightarrow> pool_add_transaction hp pool r = (pool, Inl DuplicateTransaction)"
    by (simp add: pool_add_transaction_def v)
  have c: "ok \<Longrightarrow> \<not> ?dup pool \<Longrightarrow> pool_add_transaction hp pool r =
           (pool\<lparr>pool_transactions := pool_transactions pool @ [r]\<rparr>, Inr True)"
    by (simp add: pool_add_transaction_def v)
  have d: "\<not> ok \<Longrightarrow> pool_add_transaction hp pool r = (pool, Inl (InvalidTransaction msg))"
    by (simp add: pool_add_transaction_def v)
  have e: "add_transaction hp bc r = (?bc1, Inr True)"
    if "ok" "\<not> get_balance hp bc (sender_address (hp r)) < amount (hp r) + fee (hp r)"
       "\<not> ?dup (transaction_pool bc)"
    using that by (simp add: add_transaction_def pool_add_transaction_def v Let_def)
  have f: "add_transaction hp ?bc1 r = (?bc1, Inl DuplicateTransaction)"
    if "ok" "\<not> get_balance hp bc (sender_address (hp r)) < amount (hp r) + fee (hp r)"
    using that by (simp add: add_transaction_def pool_add_transaction_def v Let_def bal)
  have g: "add_transaction hp bc1 r = (bc1, Inl DuplicateTransaction)"
    if s: "add_transaction hp bc r = (bc1, Inr True)"
  proof -
    from s have o: "ok" by (auto simp: add_transaction_def v split: bool.splits)
    from s o have nb: "\<not> get_balance hp bc (sender_address (hp r)) < amount (hp r) + fee (hp r)"
      by (auto simp: add_transaction_def v Let_def split: if_splits)
    from s o nb have "bc1 = ?bc1"
      by (auto simp: add_transaction_def pool_add_transaction_def v Let_def split: if_splits)
    with f [OF o nb] show ?thesis by simp
  qed
  from a b c d e f g show ?thesis unfolding v fst_conv snd_conv by blast
qed

text \<open>
  The pool holds the transactions 3 and 4, or 3 alone, when transaction 4 arrives; the
  unsigned transaction 6 is turned away; and transaction 4 is submitted twice to the
  blockchain in which \<open>alice\<close> holds 5.
\<close>

theorem pool_add_transaction_duplicate_witness:
  "fst (is_valid (ex_heap 4)) \<and>
   pool_add_transaction ex_heap (TransactionPool_init\<lparr>pool_transactions := [3, 4]\<rparr>) 4 =
     (TransactionPool_init\<lparr>pool_transactions := [3, 4]\<rparr>, Inl DuplicateTransaction) \<and>
   pool_add_transaction ex_heap (TransactionPool_init\<lparr>pool_transactions := [3]\<rparr>) 4 =
     (TransactionPool_init\<lparr>pool_transactions := [3, 4]\<rparr>, Inr True) \<and>
   \<not> fst (is_valid (ex_heap 6)) \<and>
   pool_add_transaction ex_heap (TransactionPool_init\<lparr>pool_transactions := [3]\<rparr>) 6 =
     (TransactionPool_init\<lparr>pool_transactions := [3]\<rparr>,
      Inl (InvalidTransaction ''Transaction not signed'')) \<and>
   \<not> get_balance ex_heap ex_bc (sender_address (ex_heap 4)) < amount (ex_heap 4) + fee (ex_heap 4) \<and>
   add_transaction ex_heap ex_bc 4 = (ex_bc1, Inr True) \<and>
   add_transaction ex_heap ex_bc1 4 = (ex_bc1, Inl DuplicateTransaction)"
proof -
  let ?p34 = "TransactionPool_init\<lparr>pool_transactions := [3, 4]\<rparr>"
  let ?p3 = "TransactionPool_init\<lparr>pool_transactions := [3]\<rparr>"
  have v: "fst (is_valid (ex_heap 4))" by (simp add: ex_heap_4 ex_small_valid)
  have u: "\<not> fst (is_valid (ex_heap 6))" by (simp add: ex_heap_6 ex_unsigned_invalid)
  have m: "snd (is_valid (ex_heap 6)) = ''Transaction not signed''"
    by (simp add: ex_heap_6 ex_unsigned_invalid)
  have i3: "transaction_id (ex_heap 3) = Some ''tx1''" by (simp add: ex_heap_3 ex_payment_def)
  have i4: "transaction_id (ex_heap 4) = Some ''tx2''" by (simp add: ex_heap_4 ex_small_def)
  have d: "list_ex (\<lambda>x. transaction_id (ex_heap x) = transaction_id (ex_heap 4))
             (pool_transactions ?p34)"
    by (simp add: i3 i4)
  have n: "\<not> list_ex (\<lambda>x. transaction_id (ex_heap x) = transaction_id (ex_heap 4))
             (pool_transactions ?p3)"
    by (simp add: i3 i4)
  have f: "\<not> list_ex (\<lambda>x. transaction_id (ex_heap x) = transaction_id (ex_heap 4))
             (pool_transactions (transaction_pool ex_bc))"
    by (simp add: ex_bc_def TransactionPool_init_def)
  have s: "sender_address (ex_heap 4) = ''alice''" by (simp add: ex_heap_4 ex_small_def)
  have q: "amount (ex_heap 4) + fee (ex_heap 4) = Fin 4" by (simp add: ex_heap_4 ex_small_def)
  have nb: "\<not> get_balance ex_heap ex_bc (sender_address (ex_heap 4)) <
              amount (ex_heap 4) + fee (ex_heap 4)"
    by (simp add: s q ex_balance)
  have e: "ex_bc\<lparr>transaction_pool := (transaction_pool ex_bc)
               \<lparr>pool_transactions := pool_transactions (transaction_pool ex_bc) @ [4]\<rparr>,
            pending_transactions := pending_transactions ex_bc @ [4]\<rparr> = ex_bc1"
    by (simp add: ex_bc1_def ex_bc_def TransactionPool_init_def)
  from pool_add_transaction_duplicate [of ex_heap 4 ?p34 ex_bc ex_bc1] v d
  have a: "pool_add_transaction ex_heap ?p34 4 = (?p34, Inl DuplicateTransaction)" by blast
  from pool_add_transaction_duplicate [of ex_heap 4 ?p3 ex_bc ex_bc1] v n
  have "pool_add_transaction ex_heap ?p3 4 =
          (?p3\<lparr>pool_transactions := pool_transactions ?p3 @ [4]\<rparr>, Inr True)" by blast
  then have b: "pool_add_transaction ex_heap ?p3 4 = (?p34, Inr True)" by simp
  from pool_add_transaction_duplicate [of ex_heap 6 ?p3 ex_bc ex_bc1] u
  have "pool_add_transaction ex_heap ?p3 6 =
          (?p3, Inl (InvalidTransaction (snd (is_valid (ex_heap 6)))))" by blast
  then have c: "pool_add_transaction ex_heap ?p3 6 =
          (?p3, Inl (InvalidTransaction ''Transaction not signed''))" by (simp only: m)
  from pool_add_transaction_duplicate [of ex_heap 4 ?p3 ex_bc ex_bc1] v nb f
  have "add_transaction ex_heap ex_bc 4 =
        (ex_bc\<lparr>transaction_pool := (transaction_pool ex_bc)
               \<lparr>pool_transactions := pool_transactions (transaction_pool ex_bc) @ [4]\<rparr>,
            pending_transactions := pending_transactions ex_bc @ [4]\<rparr>, Inr True) \<and>
      add_transaction ex_heap
        (ex_bc\<lparr>transaction_pool := (transaction_pool ex_bc)
               \<lparr>pool_transactions := pool_transactions (transaction_pool ex_bc) @ [4]\<rparr>,
            pending_transactions := pending_transactions ex_bc @ [4]\<rparr>) 4 =
        (ex_bc\<lparr>transaction_pool := (transaction_pool ex_bc)
               \<lparr>pool_transactions := pool_transactions (transaction_pool ex_bc) @ [4]\<rparr>,
            pending_transactions := pending_transactions ex_bc @ [4]\<rparr>, Inl DuplicateTransaction)"
    by blast
  then have g: "add_transaction ex_heap ex_bc 4 = (ex_bc1, Inr True)"
    and h: "add_transaction ex_heap ex_bc1 4 = (ex_bc1, Inl DuplicateTransaction)"
    unfolding e by blast+
  from v a b u c nb g h show ?thesis by (intro conjI)
qed

text \<open>
  C5 as stated fails for a transaction that is not structurally valid, because validation
  comes first: an unsigned transaction whose id no pool entry has is not appended, and a
  transaction with amount zero whose id a pool entry has is rejected as invalid, not as a
  duplicate.
\<close>

theorem pool_add_transaction_duplicate_counterexample:
  "\<not> list_ex (\<lambda>x. transaction_id (ex_heap x) = transaction_id (ex_heap 6))
       (pool_transactions TransactionPool_init) \<and>
   pool_add_transaction ex_heap TransactionPool_init 6 =
     (TransactionPool_init, Inl (InvalidTransaction ''Transaction not signed'')) \<and>
   list_ex (\<lambda>x. transaction_id ((ex_heap(7 := ex_zero_amount)) x) =
                 transaction_id ((ex_heap(7 := ex_zero_amount)) 7))
       (pool_transactions (TransactionPool_init\<lparr>pool_transactions := [4]\<rparr>)) \<and>
   pool_add_transaction (ex_heap(7 := ex_zero_amount))
       (TransactionPool_init\<lparr>pool_transactions := [4]\<rparr>) 7 =
     (TransactionPool_init\<lparr>pool_transactions := [4]\<rparr>,
      Inl (InvalidTransaction ''Amount must be positive''))"
proof -
  have a: "\<not> list_ex (\<lambda>x. transaction_id (ex_heap x) = transaction_id (ex_heap 6))
       (pool_transactions TransactionPool_init)"
    by (simp add: TransactionPool_init_def)
  have i4: "transaction_id ((ex_heap(7 := ex_zero_amount)) 4) = Some ''tx2''"
    by (simp add: ex_heap_4 ex_small_def)
  have i7: "transaction_id ((ex_heap(7 := ex_zero_amount)) 7) = Some ''tx2''"
    by (simp add: ex_zero_amount_def ex_small_def)
  have c: "list_ex (\<lambda>x. transaction_id ((ex_heap(7 := ex_zero_amount)) x) =
                 transaction_id ((ex_heap(7 := ex_zero_amount)) 7))
       (pool_transactions (TransactionPool_init\<lparr>pool_transactions := [4]\<rparr>))"
    by (simp add: ex_heap_4 ex_small_def ex_zero_amount_def)
  have v: "is_valid ex_zero_amount = (False, ''Amount must be positive'')"
    by (simp add: is_valid_def ex_zero_amount_def ex_small_def zero_pyfloat_def)
  have d: "pool_add_transaction (ex_heap(7 := ex_zero_amount))
       (TransactionPool_init\<lparr>pool_transactions := [4]\<rparr>) 7 =
     (TransactionPool_init\<lparr>pool_transactions := [4]\<rparr>,
      Inl (InvalidTransaction ''Amount must be positive''))"
    by (simp add: pool_add_transaction_def v)
  from a ex_pool_add_rejected c d show ?thesis by (intro conjI)
qed

section \<open>Balances\<close>





















section \<open>Proof of work\<close>

lemma calculate_hash_hash_update:
  "calculate_hash HB hp (b\<lparr>hash := h\<rparr>) = calculate_hash HB hp b"
  by (simp add: calculate_hash_def)

lemma next_nonce_consistent: "hash (next_nonce HB hp b) = calculate_hash HB hp (next_nonce HB hp b)"
  by (simp add: next_nonce_def Let_def calculate_hash_hash_update)

lemma next_nonce_fields:
  "index (next_nonce HB hp b) = index b"
  "block_timestamp (next_nonce HB hp b) = block_timestamp b"
  "transactions (next_nonce HB hp b) = transactions b"
  "previous_hash (next_nonce HB hp b) = previous_hash b"
  "nonce (next_nonce HB hp b) = Suc (nonce b)"
  by (simp_all add: next_nonce_def Let_def)

lemma py_prefix_zeros:
  "py_prefix d s = py_zeros d \<Longrightarrow> take (nat d) s = replicate (nat d) CHR ''0''"
proof (cases "0 \<le> d")
  case True
  assume "py_prefix d s = py_zeros d"
  with True show ?thesis by (simp add: py_prefix_def py_zeros_def)
next
  case False
  then have "nat d = 0" by simp
  then show ?thesis by simp
qed

lemma mined_refl: "py_prefix d (hash b) = py_zeros d \<Longrightarrow> mined HB hp d b b"
  by (simp add: mined_def)

lemma mined_step:
  assumes "mined HB hp d (next_nonce HB hp b) b'"
  shows "mined HB hp d b b'"
proof -
  note m = assms [unfolded mined_def next_nonce_fields]
  from m have a: "py_prefix d (hash b') = py_zeros d" by blast
  from m next_nonce_consistent [of HB hp b] have c: "hash b' = calculate_hash HB hp b'" by blast
  from m have f: "index b' = index b" "block_timestamp b' = block_timestamp b"
    "transactions b' = transactions b" "previous_hash b' = previous_hash b" by blast+
  from m have "Suc (nonce b) \<le> nonce b'" by blast
  then have n: "nonce b \<le> nonce b'" by arith
  from a c f n show ?thesis unfolding mined_def by (intro conjI impI)
qed

lemma mine_block_mined:
  "mine_block HB hp d b = Some b' \<Longrightarrow> mined HB hp d b b'"
proof (rule mine_block.raw_induct [where P = mined])
  fix f HB hp d b b'
  assume IH: "\<And>HB hp d b b'. f HB hp d b = Some b' \<Longrightarrow> mined HB hp d b b'"
    and eq: "(if py_prefix d (hash b) \<noteq> py_zeros d then f HB hp d (next_nonce HB hp b)
              else Some b) = Some b'"
  show "mined HB hp d b b'"
  proof (cases "py_prefix d (hash b) = py_zeros d")
    case True
    with eq have "b' = b" by simp
    with True show ?thesis by (simp add: mined_refl)
  next
    case False
    with eq have "f HB hp d (next_nonce HB hp b) = Some b'" by simp
    then have "mined HB hp d (next_nonce HB hp b) b'" by (rule IH)
    then show ?thesis by (rule mined_step)
  qed
qed

lemma py_str_nat_digit: "n < 10 \<Longrightarrow> py_str_nat n = [digit_char n]"
  by simp

lemma py_str_200: "py_str_int 200 = ''200''"
  by (simp add: py_str_int_def digit_char_def)

lemma nan_payment_eq:
  "nan_payment = \<lparr> transaction_id = Some ''id:alice>bob'', sender_address = ''alice'',
     recipient_address = ''bob'', amount = NaN, fee = default_fee, message = [],
     timestamp = Fin 100, signature = Some ''sig7.1'', status = ''pending'' \<rparr>"
  by (simp add: nan_payment_def sign_transaction_def Transaction_init_def get_transaction_data_def
        tx_calculate_hash_def ex_tx_hash_def ex_sign_def digit_char_def)

lemma nan_payment_valid: "is_valid nan_payment = (True, ''Transaction is valid'')"
  by (simp add: nan_payment_eq is_valid_def truthy_def zero_pyfloat_def default_fee_eq)

lemma nan_objs_2: "objs nan_store 2 = nan_payment"
  by (simp add: nan_store_def)

lemma nan_genesis_eq:
  "nan_genesis = \<lparr> chain = [\<lparr> index = 0, block_timestamp = Fin 50, transactions = [],
       previous_hash = ''0'', nonce = 0, hash = ''f0'' \<rparr>],
     difficulty = 2, pending_transactions = [], mining_reward = Fin 10,
     transaction_pool = TransactionPool_init \<rparr>"
  by (simp add: nan_genesis_def Blockchain_init_def create_genesis_block_def Block_init_def
        calculate_hash_def ex_hash_def digit_char_def)

lemma nan_balance_genesis: "get_balance hp nan_genesis a = 0"
  by (simp add: nan_genesis_eq get_balance_def)

lemma nan_add: "add_transaction (objs nan_store) nan_genesis 2 = (nan_bc1, Inr True)"
proof -
  have q: "amount nan_payment + fee nan_payment = NaN" by (simp add: nan_payment_eq)
  have p: "pool_transactions TransactionPool_init = []"
    by (simp add: TransactionPool_init_def)
  have t: "transaction_pool nan_genesis = TransactionPool_init"
    and e: "pending_transactions nan_genesis = []"
    by (simp_all add: nan_genesis_eq)
  show ?thesis
    by (simp add: add_transaction_def pool_add_transaction_def nan_objs_2 nan_payment_valid
          nan_balance_genesis q zero_pyfloat_def p t e nan_bc1_def)
qed

lemma nan_reward_eq: "reward_transaction nan_bc1 ''miner'' nan_clock = nan_reward"
  by (simp add: reward_transaction_def Transaction_init_def nan_bc1_def nan_genesis_eq
        nan_clock_def py_str_200 nan_reward_def)

lemma nan_alloc:
  "alloc nan_store nan_reward = (3, \<lparr> objs = nan_heap1, next_ref = 4 \<rparr>)"
  by (simp add: alloc_def nan_store_def nan_heap1_def)

lemma nan_heap1_2: "nan_heap1 2 = nan_payment"
  by (simp add: nan_heap1_def nan_objs_2)

lemma nan_heap1_3: "nan_heap1 3 = nan_reward"
  by (simp add: nan_heap1_def)

lemma nan_latest:
  "get_latest_block nan_bc1 = Inr \<lparr> index = 0, block_timestamp = Fin 50, transactions = [],
       previous_hash = ''0'', nonce = 0, hash = ''f0'' \<rparr>"
  by (simp add: get_latest_block_def nan_bc1_def nan_genesis_eq)

lemma nan_statuses: "map status (map nan_heap1 [2, 3]) = [''pending'', ''confirmed'']"
  by (simp add: nan_heap1_2 nan_heap1_3 nan_payment_eq nan_reward_def)

lemma nan_hash_at:
  "calculate_hash ex_hash nan_heap1
     \<lparr> index = i, block_timestamp = ts, transactions = [2, 3], previous_hash = p,
       nonce = n, hash = h \<rparr> =
   (if n < 2 then ''f'' else ''00'') @ py_str_nat i @ ''pendingconfirmed''"
  using nan_statuses by (simp add: calculate_hash_def ex_hash_def)

lemma py_zeros_2: "py_zeros 2 = ''00''"
  by (simp add: py_zeros_def numeral_2_eq_2)

lemma py_prefix_2: "py_prefix 2 s = take 2 s"
  by (simp add: py_prefix_def)

lemma nan_block_init:
  "Block_init ex_hash nan_heap1 (Suc 0) [2, 3] ''f0'' None (Fin 201) =
     \<lparr> index = Suc 0, block_timestamp = Fin 201, transactions = [2, 3], previous_hash = ''f0'',
       nonce = 0, hash = ''f1pendingconfirmed'' \<rparr>"
  by (simp add: Block_init_def nan_hash_at digit_char_def)

lemma nan_mine_block:
  "mine_block ex_hash nan_heap1 2
     \<lparr> index = Suc 0, block_timestamp = Fin 201, transactions = [2, 3], previous_hash = ''f0'',
       nonce = 0, hash = ''f1pendingconfirmed'' \<rparr> = Some nan_block"
  apply (subst mine_block.simps)
  apply (simp add: py_prefix_2 py_zeros_2 next_nonce_def nan_hash_at digit_char_def)
  apply (subst mine_block.simps)
  apply (simp add: py_prefix_2 py_zeros_2 next_nonce_def nan_hash_at digit_char_def)
  apply (subst mine_block.simps)
  apply (simp add: py_prefix_2 py_zeros_2 next_nonce_def nan_hash_at digit_char_def nan_block_def)
  done

lemma nan_confirm:
  "confirm_transaction nan_heap1 (TransactionPool_init\<lparr>pool_transactions := [2]\<rparr>)
     (transaction_id (nan_heap1 2)) =
     (nan_heap2, \<lparr> pool_transactions = [], confirmed_transactions = [2] \<rparr>, True)"
  by (simp add: confirm_transaction_def TransactionPool_init_def nan_heap2_def nan_heap1_2)

lemma nan_mine:
  "mine_pending_transactions ex_hash nan_clock nan_store nan_bc1 ''miner'' =
     Some (\<lparr> objs = nan_heap2, next_ref = 4 \<rparr>, nan_bc2, Inr True)"
proof -
  have p: "pending_transactions nan_bc1 = [2]" "difficulty nan_bc1 = 2"
    "length (chain nan_bc1) = 1"
    "transaction_pool nan_bc1 = TransactionPool_init\<lparr>pool_transactions := [2]\<rparr>"
    by (simp_all add: nan_bc1_def nan_genesis_eq)
  have t: "block_time nan_clock = Fin 201" by (simp add: nan_clock_def)
  show ?thesis
    by (simp add: mine_pending_transactions_def p nan_reward_eq nan_alloc nan_latest
          t nan_block_init nan_mine_block nan_confirm nan_bc2_def)
qed

lemma nan_invalid:
  "is_chain_valid ex_hash nan_heap2 nan_bc2 = (False, ''Invalid hash at block 1'')"
proof -
  have s: "map status (map nan_heap2 [2, 3]) = [''confirmed'', ''confirmed'']"
    by (simp add: nan_heap2_def nan_heap1_3 nan_reward_def)
  have c: "calculate_hash ex_hash nan_heap2 nan_block = ''001confirmedconfirmed''"
    using s by (simp add: calculate_hash_def ex_hash_def digit_char_def nan_block_def)
  have h: "hash nan_block = ''001pendingconfirmed''" by (simp add: nan_block_def)
  have ch: "chain nan_bc2 = [\<lparr> index = 0, block_timestamp = Fin 50, transactions = [],
       previous_hash = ''0'', nonce = 0, hash = ''f0'' \<rparr>, nan_block]"
    by (simp add: nan_bc2_def nan_bc1_def nan_genesis_eq)
  show ?thesis
    by (simp add: is_chain_valid_def ch c h digit_char_def)
qed

lemma Block_init_consistent:
  "hash (Block_init HB hp i txs prev ts now) =
     calculate_hash HB hp (Block_init HB hp i txs prev ts now)"
  by (simp add: Block_init_def Let_def calculate_hash_def)

lemma mine_pending_transactions_True:
  assumes "mine_pending_transactions HB clk st bc a = Some (st', bc', Inr True)"
  shows "\<exists>nb. mine_block HB ((objs st)(next_ref st := reward_transaction bc a clk)) (difficulty bc)
            (Block_init HB ((objs st)(next_ref st := reward_transaction bc a clk))
               (length (chain bc)) (pending_transactions bc @ [next_ref st])
               (hash (last (chain bc))) None (block_time clk)) = Some nb \<and>
          chain bc' = chain bc @ [nb]"
  using assms
  by (auto simp: mine_pending_transactions_def alloc_def get_latest_block_def
           split: if_splits option.splits prod.splits sum.splits)

lemma mine_block_first_step:
  assumes "mine_block HB hp d b = Some b'" and "py_prefix d (hash b) \<noteq> py_zeros d"
  shows "hash b' = calculate_hash HB hp b'"
proof -
  from assms have "mine_block HB hp d (next_nonce HB hp b) = Some b'"
    by (subst (asm) mine_block.simps) simp
  then have "mined HB hp d (next_nonce HB hp b) b'" by (rule mine_block_mined)
  with next_nonce_consistent [of HB hp b] show ?thesis unfolding mined_def by blast
qed

text \<open>
  C7, as amended. When \<open>mine_block\<close> returns, the stored hash starts with \<open>d\<close> zeros, which
  is the exit test of the loop, and the search has changed nothing but nonce and hash. The
  stored hash is the hash of the block's fields when the block came in with its hash up to
  date (as the constructor leaves it) or came in with a hash that did not meet the
  target, so that the loop ran; a block that comes in with a stale hash that meets the
  target is returned as it is. Hence the block that \<open>mine_pending_transactions\<close> appends
  meets the difficulty of the chain, and its hash is the hash of its contents in the store
  of that moment.
\<close>

theorem mine_block_postcondition:
  "(mine_block HB hp d b = Some b' \<longrightarrow>
      take (nat d) (hash b') = replicate (nat d) CHR ''0'' \<and>
      py_prefix d (hash b') = py_zeros d \<and>
      (hash b = calculate_hash HB hp b \<or> py_prefix d (hash b) \<noteq> py_zeros d \<longrightarrow>
         hash b' = calculate_hash HB hp b') \<and>
      (hash b \<noteq> calculate_hash HB hp b \<and> py_prefix d (hash b) = py_zeros d \<longrightarrow>
         b' = b \<and> hash b' \<noteq> calculate_hash HB hp b') \<and>
      index b' = index b \<and> block_timestamp b' = block_timestamp b \<and>
      transactions b' = transactions b \<and> previous_hash b' = previous_hash b) \<and>
   (mine_pending_transactions HB clk st bc a = Some (st', bc', Inr True) \<longrightarrow>
      (\<exists>nb. chain bc' = chain bc @ [nb] \<and>
         take (nat (difficulty bc)) (hash nb) = replicate (nat (difficulty bc)) CHR ''0'' \<and>
         hash nb = calculate_hash HB ((objs st)(next_ref st := reward_transaction bc a clk)) nb))"
proof (intro conjI impI)
  assume m: "mine_block HB hp d b = Some b'"
  then have r: "mined HB hp d b b'" by (rule mine_block_mined)
  then have p: "py_prefix d (hash b') = py_zeros d" by (simp only: mined_def)
  from p show "py_prefix d (hash b') = py_zeros d" .
  from p show "take (nat d) (hash b') = replicate (nat d) CHR ''0''" by (rule py_prefix_zeros)
  from r show "index b' = index b" by (simp only: mined_def)
  from r show "block_timestamp b' = block_timestamp b" by (simp only: mined_def)
  from r show "transactions b' = transactions b" by (simp only: mined_def)
  from r show "previous_hash b' = previous_hash b" by (simp only: mined_def)
  {
    assume "hash b = calculate_hash HB hp b \<or> py_prefix d (hash b) \<noteq> py_zeros d"
    then show "hash b' = calculate_hash HB hp b'"
    proof
      assume "hash b = calculate_hash HB hp b"
      with r show ?thesis unfolding mined_def by blast
    next
      assume "py_prefix d (hash b) \<noteq> py_zeros d"
      with m show ?thesis by (rule mine_block_first_step)
    qed
  }
  {
    assume s: "hash b \<noteq> calculate_hash HB hp b \<and> py_prefix d (hash b) = py_zeros d"
    with m have e: "b' = b" by (subst (asm) mine_block.simps) simp
    from e show "b' = b" .
    from e s show "hash b' \<noteq> calculate_hash HB hp b'" by simp
  }
next
  let ?hp = "(objs st)(next_ref st := reward_transaction bc a clk)"
  let ?b = "Block_init HB ?hp (length (chain bc)) (pending_transactions bc @ [next_ref st])
               (hash (last (chain bc))) None (block_time clk)"
  assume "mine_pending_transactions HB clk st bc a = Some (st', bc', Inr True)"
  then obtain nb where m: "mine_block HB ?hp (difficulty bc) ?b = Some nb"
    and c: "chain bc' = chain bc @ [nb]"
    using mine_pending_transactions_True by blast
  from m have r: "mined HB ?hp (difficulty bc) ?b nb" by (rule mine_block_mined)
  then have "py_prefix (difficulty bc) (hash nb) = py_zeros (difficulty bc)"
    by (simp only: mined_def)
  then have z: "take (nat (difficulty bc)) (hash nb) = replicate (nat (difficulty bc)) CHR ''0''"
    by (rule py_prefix_zeros)
  have "hash ?b = calculate_hash HB ?hp ?b" by (rule Block_init_consistent)
  with r have h: "hash nb = calculate_hash HB ?hp nb" unfolding mined_def by blast
  from c z h show "\<exists>nb. chain bc' = chain bc @ [nb] \<and>
         take (nat (difficulty bc)) (hash nb) = replicate (nat (difficulty bc)) CHR ''0'' \<and>
         hash nb = calculate_hash HB ?hp nb" by blast
qed

text \<open>
  The search of the example runs the loop twice and stops at nonce 2.
\<close>

theorem mine_block_postcondition_witness:
  "mine_block ex_hash nan_heap1 2
     (Block_init ex_hash nan_heap1 (Suc 0) [2, 3] ''f0'' None (Fin 201)) = Some nan_block \<and>
   nonce nan_block = 2 \<and>
   hash nan_block = ''001pendingconfirmed'' \<and>
   take (nat 2) (hash nan_block) = replicate (nat 2) CHR ''0'' \<and>
   hash nan_block = calculate_hash ex_hash nan_heap1 nan_block \<and>
   mine_pending_transactions ex_hash nan_clock nan_store nan_bc1 ''miner'' =
     Some (\<lparr> objs = nan_heap2, next_ref = 4 \<rparr>, nan_bc2, Inr True) \<and>
   (\<exists>nb. chain nan_bc2 = chain nan_bc1 @ [nb] \<and>
      take (nat (difficulty nan_bc1)) (hash nb) = replicate (nat (difficulty nan_bc1)) CHR ''0'')"
proof -
  let ?b = "Block_init ex_hash nan_heap1 (Suc 0) [2, 3] ''f0'' None (Fin 201)"
  note t = mine_block_postcondition [where HB = ex_hash and hp = nan_heap1 and d = 2 and b = ?b
      and b' = nan_block and clk = nan_clock and st = nan_store and bc = nan_bc1
      and a = "''miner''" and st' = "\<lparr> objs = nan_heap2, next_ref = 4 \<rparr>" and bc' = nan_bc2]
  have m: "mine_block ex_hash nan_heap1 2 ?b = Some nan_block"
    by (simp only: nan_block_init nan_mine_block)
  have c: "hash ?b = calculate_hash ex_hash nan_heap1 ?b" by (rule Block_init_consistent)
  from t m have z: "take (nat 2) (hash nan_block) = replicate (nat 2) CHR ''0''" by blast
  from t m c have h: "hash nan_block = calculate_hash ex_hash nan_heap1 nan_block" by blast
  from t nan_mine have e: "\<exists>nb. chain nan_bc2 = chain nan_bc1 @ [nb] \<and>
      take (nat (difficulty nan_bc1)) (hash nb) = replicate (nat (difficulty nan_bc1)) CHR ''0''"
    by blast
  have n: "nonce nan_block = 2" "hash nan_block = ''001pendingconfirmed''"
    by (simp_all add: nan_block_def)
  from m n z h nan_mine e show ?thesis by (intro conjI)
qed

text \<open>
  C7 as stated fails for a block whose stored hash is stale: the block that mining
  appended, looked at in the store after its transaction was confirmed, has a hash that
  meets the target, so \<open>mine_block\<close> returns it at once, and that hash is not the hash of
  its fields.
\<close>

theorem mine_block_postcondition_counterexample:
  "hash nan_block = ''001pendingconfirmed'' \<and>
   calculate_hash ex_hash nan_heap2 nan_block = ''001confirmedconfirmed'' \<and>
   mine_block ex_hash nan_heap2 2 nan_block = Some nan_block \<and>
   hash nan_block \<noteq> calculate_hash ex_hash nan_heap2 nan_block"
proof -
  have s: "map status (map nan_heap2 [2, 3]) = [''confirmed'', ''confirmed'']"
    by (simp add: nan_heap2_def nan_heap1_3 nan_reward_def)
  have c: "calculate_hash ex_hash nan_heap2 nan_block = ''001confirmedconfirmed''"
    using s by (simp add: calculate_hash_def ex_hash_def digit_char_def nan_block_def)
  have h: "hash nan_block = ''001pendingconfirmed''" by (simp add: nan_block_def)
  have m: "mine_block ex_hash nan_heap2 2 nan_block = Some nan_block"
    by (subst mine_block.simps) (simp add: py_prefix_2 py_zeros_2 h)
  from h c m show ?thesis by simp
qed

lemma nan_genesis_valid:
  "is_chain_valid ex_hash (objs nan_store) nan_genesis = (True, ''Blockchain is valid'')"
  by (simp add: is_chain_valid_def nan_genesis_eq)

lemma nan_bc1_valid:
  "is_chain_valid ex_hash (objs nan_store) nan_bc1 = (True, ''Blockchain is valid'')"
  by (simp add: is_chain_valid_def nan_bc1_def nan_genesis_eq)

section \<open>Validity of the mined chain\<close>

text \<open>
  C1. A chain reached from the genesis state by one accepted transaction and one mining
  run: \<open>is_chain_valid\<close> holds before mining and fails after it. The block was hashed
  while its transaction had status \<open>pending\<close>; \<open>confirm_transaction\<close> then sets the
  status of that same object to \<open>confirmed\<close>, so the hash recomputed from the block
  differs from the stored one. (From the genesis state every balance is zero, so the
  first accepted transaction is one whose amount is NaN: no comparison rejects it.)
\<close>

theorem mined_chain_fails_validation:
  "nan_genesis = Blockchain_init ex_hash (objs nan_store) 2 (Fin 50) \<and>
   is_chain_valid ex_hash (objs nan_store) nan_genesis = (True, ''Blockchain is valid'') \<and>
   add_transaction (objs nan_store) nan_genesis 2 = (nan_bc1, Inr True) \<and>
   is_chain_valid ex_hash (objs nan_store) nan_bc1 = (True, ''Blockchain is valid'') \<and>
   mine_pending_transactions ex_hash nan_clock nan_store nan_bc1 ''miner'' =
     Some (\<lparr> objs = nan_heap2, next_ref = 4 \<rparr>, nan_bc2, Inr True) \<and>
   is_chain_valid ex_hash nan_heap2 nan_bc2 = (False, ''Invalid hash at block 1'')"
  using nan_genesis_def nan_genesis_valid nan_add nan_bc1_valid nan_mine nan_invalid
  by (intro conjI)

section \<open>Signing\<close>

text \<open>
  C8, as amended. The second of two calls with the same key replaces the signature by the
  one it computes and changes no other field; in particular the \<open>transaction_id\<close> is
  the one the first call set. Each call stores the signature the signer returns for the
  key, the unsigned fields and its own draw, so the transaction is the same as after one
  call when the signer returns the same signature for both draws.
\<close>

theorem sign_transaction_twice:
  "sign_transaction S H k d2 (sign_transaction S H k d1 t) =
     (sign_transaction S H k d1 t)\<lparr>signature := Some (S k (get_transaction_data t) d2)\<rparr> \<and>
   transaction_id (sign_transaction S H k d2 (sign_transaction S H k d1 t)) =
     transaction_id (sign_transaction S H k d1 t) \<and>
   signature (sign_transaction S H k d1 t) = Some (S k (get_transaction_data t) d1) \<and>
   signature (sign_transaction S H k d2 (sign_transaction S H k d1 t)) =
     Some (S k (get_transaction_data t) d2) \<and>
   (S k (get_transaction_data t) d2 = S k (get_transaction_data t) d1 \<longrightarrow>
      sign_transaction S H k d2 (sign_transaction S H k d1 t) = sign_transaction S H k d1 t)"
  by (simp add: sign_transaction_def Let_def get_transaction_data_def tx_calculate_hash_def)

text \<open>A signer that ignores the draw: the second call changes nothing.\<close>

theorem sign_transaction_twice_witness:
  "det_sign 7 (get_transaction_data ex_unsigned) 2 = det_sign 7 (get_transaction_data ex_unsigned) 1 \<and>
   sign_transaction det_sign ex_tx_hash 7 2 (sign_transaction det_sign ex_tx_hash 7 1 ex_unsigned) =
     sign_transaction det_sign ex_tx_hash 7 1 ex_unsigned"
proof -
  have a: "det_sign 7 (get_transaction_data ex_unsigned) 2 =
           det_sign 7 (get_transaction_data ex_unsigned) 1"
    by (simp add: det_sign_def)
  with sign_transaction_twice [of det_sign ex_tx_hash 7 2 1 ex_unsigned]
  have "sign_transaction det_sign ex_tx_hash 7 2 (sign_transaction det_sign ex_tx_hash 7 1 ex_unsigned) =
     sign_transaction det_sign ex_tx_hash 7 1 ex_unsigned" by blast
  with a show ?thesis by (intro conjI)
qed

text \<open>
  C8 as stated fails for a signer whose result depends on the draw, as the ECDSA
  signature of the library does: the second call replaces the signature.
\<close>

theorem sign_transaction_twice_counterexample:
  "signature (sign_transaction ex_sign ex_tx_hash 7 1 ex_unsigned) = Some ''sig7.1'' \<and>
   signature (sign_transaction ex_sign ex_tx_hash 7 2
                (sign_transaction ex_sign ex_tx_hash 7 1 ex_unsigned)) = Some ''sig7.2'' \<and>
   signature (sign_transaction ex_sign ex_tx_hash 7 2
                (sign_transaction ex_sign ex_tx_hash 7 1 ex_unsigned)) \<noteq>
   signature (sign_transaction ex_sign ex_tx_hash 7 1 ex_unsigned)"
  by (simp add: sign_transaction_def Let_def ex_sign_def digit_char_def)

section \<open>Mining the pending transactions\<close>

lemma mine_block_terminates:
  assumes "hash b = calculate_hash HB hp b"
      and "py_prefix d (HB (index b, block_timestamp b, map hp (transactions b), previous_hash b,
              nonce b + k)) = py_zeros d"
  shows "\<exists>b'. mine_block HB hp d b = Some b'"
  using assms
proof (induction k arbitrary: b)
  case 0
  then have "py_prefix d (hash b) = py_zeros d" by (simp add: calculate_hash_def)
  then have "mine_block HB hp d b = Some b" by (subst mine_block.simps) simp
  then show ?case by blast
next
  case (Suc k)
  show ?case
  proof (cases "py_prefix d (hash b) = py_zeros d")
    case True
    then have "mine_block HB hp d b = Some b" by (subst mine_block.simps) simp
    then show ?thesis by blast
  next
    case False
    then have step: "mine_block HB hp d b = mine_block HB hp d (next_nonce HB hp b)"
      by (subst mine_block.simps) simp
    have "\<exists>b'. mine_block HB hp d (next_nonce HB hp b) = Some b'"
    proof (rule Suc.IH)
      show "hash (next_nonce HB hp b) = calculate_hash HB hp (next_nonce HB hp b)"
        by (rule next_nonce_consistent)
      from Suc.prems(2)
      show "py_prefix d (HB (index (next_nonce HB hp b), block_timestamp (next_nonce HB hp b),
              map hp (transactions (next_nonce HB hp b)), previous_hash (next_nonce HB hp b),
              nonce (next_nonce HB hp b) + k)) = py_zeros d"
        by (simp add: next_nonce_fields)
    qed
    with step show ?thesis by simp
  qed
qed

lemma confirm_all_pending:
  "pool_transactions pool = rs \<Longrightarrow>
   confirm_all hp pool rs =
     ((\<lambda>x. if x \<in> set rs then (hp x)\<lparr>status := ''confirmed''\<rparr> else hp x),
      pool\<lparr>pool_transactions := [], confirmed_transactions := confirmed_transactions pool @ rs\<rparr>)"
proof (induction rs arbitrary: hp pool)
  case Nil
  then show ?case by simp
next
  case (Cons r rs)
  let ?hp1 = "hp(r := (hp r)\<lparr>status := ''confirmed''\<rparr>)"
  let ?pool1 = "pool\<lparr>pool_transactions := rs,
                     confirmed_transactions := confirmed_transactions pool @ [r]\<rparr>"
  from Cons.prems
  have c: "confirm_transaction hp pool (transaction_id (hp r)) = (?hp1, ?pool1, True)"
    by (simp add: confirm_transaction_def)
  have p: "pool_transactions ?pool1 = rs" by simp
  have h: "(\<lambda>x. if x \<in> set rs then (?hp1 x)\<lparr>status := ''confirmed''\<rparr> else ?hp1 x) =
           (\<lambda>x. if x \<in> set (r # rs) then (hp x)\<lparr>status := ''confirmed''\<rparr> else hp x)"
    by (rule ext) simp
  show ?case
    by (simp only: confirm_all.simps c prod.case Cons.IH [OF p] h) simp
qed

lemma Block_init_fields:
  "index (Block_init HB hp i txs prev ts now) = i"
  "transactions (Block_init HB hp i txs prev ts now) = txs"
  "previous_hash (Block_init HB hp i txs prev ts now) = prev"
  "nonce (Block_init HB hp i txs prev ts now) = 0"
  "block_timestamp (Block_init HB hp i txs prev None now) = now"
  by (simp_all add: Block_init_def Let_def)

lemma reward_transaction_fields:
  "sender_address (reward_transaction bc a clk) = ''system''"
  "recipient_address (reward_transaction bc a clk) = a"
  "amount (reward_transaction bc a clk) = mining_reward bc"
  "fee (reward_transaction bc a clk) = Fin 0"
  "transaction_id (reward_transaction bc a clk) = Some (''reward_'' @ py_str_int (reward_id_time clk))"
  "signature (reward_transaction bc a clk) = Some ''system_signature''"
  "status (reward_transaction bc a clk) = ''confirmed''"
  by (simp_all add: reward_transaction_def Transaction_init_def)

lemma mine_pending_transactions_empty:
  "pending_transactions bc = [] \<Longrightarrow>
   mine_pending_transactions HB clk st bc a = Some (st, bc, Inr False)"
  by (simp add: mine_pending_transactions_def)

lemma mine_pending_transactions_mines:
  assumes pe: "pending_transactions bc \<noteq> []"
      and ch: "chain bc \<noteq> []"
      and pl: "pool_transactions (transaction_pool bc) = pending_transactions bc"
      and mb: "mine_block HB ((objs st)(next_ref st := reward_transaction bc a clk)) (difficulty bc)
                 (Block_init HB ((objs st)(next_ref st := reward_transaction bc a clk))
                    (length (chain bc)) (pending_transactions bc @ [next_ref st])
                    (hash (last (chain bc))) None (block_time clk)) = Some nb"
  shows "mine_pending_transactions HB clk st bc a =
     Some (st\<lparr>objs := (\<lambda>x. if x \<in> set (pending_transactions bc)
                            then (((objs st)(next_ref st := reward_transaction bc a clk)) x)
                                   \<lparr>status := ''confirmed''\<rparr>
                            else ((objs st)(next_ref st := reward_transaction bc a clk)) x),
              next_ref := Suc (next_ref st)\<rparr>,
           bc\<lparr>chain := chain bc @ [nb],
              transaction_pool := (transaction_pool bc)
                \<lparr>pool_transactions := [],
                 confirmed_transactions :=
                   confirmed_transactions (transaction_pool bc) @ pending_transactions bc\<rparr>,
              pending_transactions := []\<rparr>,
           Inr True)"
proof -
  let ?hp1 = "(objs st)(next_ref st := reward_transaction bc a clk)"
  have al: "alloc st (reward_transaction bc a clk) =
              (next_ref st, st\<lparr>objs := ?hp1, next_ref := Suc (next_ref st)\<rparr>)"
    by (simp add: alloc_def)
  have gl: "get_latest_block bc = Inr (last (chain bc))"
    using ch by (simp add: get_latest_block_def)
  note ca = confirm_all_pending [OF pl, of ?hp1]
  show ?thesis
    using pe by (simp add: mine_pending_transactions_def al gl mb ca)
qed

text \<open>
  C2. With an empty pending queue \<open>mine_pending_transactions\<close> returns false and changes
  nothing. With a non-empty queue, in a blockchain whose chain is not empty and whose pool
  holds the pending transactions (both hold in every state the operations reach), and when
  some nonce \<open>n\<close> gives a hash with the required zeros (so the search ends), it returns
  true after appending exactly one block: its index is the old length of the chain, its
  transactions are the pending ones in order followed by the new reward transaction, its
  \<open>previous_hash\<close> is the hash of the old head; the reward has the fields the source
  sets; every pending transaction is confirmed and moved to the pool's confirmed list; the
  queue is empty. That the pending references are below \<open>next_ref\<close> says that the reward
  is a new object.
\<close>

theorem mine_pending_transactions_spec:
  "(pending_transactions bc = [] \<longrightarrow>
      mine_pending_transactions HB clk st bc a = Some (st, bc, Inr False)) \<and>
   (pending_transactions bc \<noteq> [] \<and> chain bc \<noteq> [] \<and>
    pool_transactions (transaction_pool bc) = pending_transactions bc \<and>
    list_all (\<lambda>r. r < next_ref st) (pending_transactions bc) \<and>
    py_prefix (difficulty bc)
      (HB (length (chain bc), block_time clk,
           map ((objs st)(next_ref st := reward_transaction bc a clk))
             (pending_transactions bc @ [next_ref st]),
           hash (last (chain bc)), n)) = py_zeros (difficulty bc) \<longrightarrow>
    (\<exists>st' bc' nb.
       mine_pending_transactions HB clk st bc a = Some (st', bc', Inr True) \<and>
       chain bc' = chain bc @ [nb] \<and>
       index nb = length (chain bc) \<and>
       transactions nb = pending_transactions bc @ [next_ref st] \<and>
       previous_hash nb = hash (last (chain bc)) \<and>
       objs st' (next_ref st) = reward_transaction bc a clk \<and>
       sender_address (reward_transaction bc a clk) = ''system'' \<and>
       recipient_address (reward_transaction bc a clk) = a \<and>
       amount (reward_transaction bc a clk) = mining_reward bc \<and>
       fee (reward_transaction bc a clk) = Fin 0 \<and>
       transaction_id (reward_transaction bc a clk) =
         Some (''reward_'' @ py_str_int (reward_id_time clk)) \<and>
       signature (reward_transaction bc a clk) = Some ''system_signature'' \<and>
       status (reward_transaction bc a clk) = ''confirmed'' \<and>
       list_all (\<lambda>r. objs st' r = (objs st r)\<lparr>status := ''confirmed''\<rparr>)
         (pending_transactions bc) \<and>
       pool_transactions (transaction_pool bc') = [] \<and>
       confirmed_transactions (transaction_pool bc') =
         confirmed_transactions (transaction_pool bc) @ pending_transactions bc \<and>
       pending_transactions bc' = [] \<and>
       difficulty bc' = difficulty bc \<and> mining_reward bc' = mining_reward bc))"
proof (intro conjI impI)
  assume "pending_transactions bc = []"
  then show "mine_pending_transactions HB clk st bc a = Some (st, bc, Inr False)"
    by (rule mine_pending_transactions_empty)
next
  let ?rw = "reward_transaction bc a clk"
  let ?hp1 = "(objs st)(next_ref st := ?rw)"
  let ?txs = "pending_transactions bc @ [next_ref st]"
  let ?b0 = "Block_init HB ?hp1 (length (chain bc)) ?txs (hash (last (chain bc))) None
               (block_time clk)"
  let ?hp2 = "\<lambda>x. if x \<in> set (pending_transactions bc)
                   then (?hp1 x)\<lparr>status := ''confirmed''\<rparr> else ?hp1 x"
  let ?st' = "st\<lparr>objs := ?hp2, next_ref := Suc (next_ref st)\<rparr>"
  assume h: "pending_transactions bc \<noteq> [] \<and> chain bc \<noteq> [] \<and>
    pool_transactions (transaction_pool bc) = pending_transactions bc \<and>
    list_all (\<lambda>r. r < next_ref st) (pending_transactions bc) \<and>
    py_prefix (difficulty bc)
      (HB (length (chain bc), block_time clk, map ?hp1 ?txs, hash (last (chain bc)), n)) =
      py_zeros (difficulty bc)"
  then have pe: "pending_transactions bc \<noteq> []" and ch: "chain bc \<noteq> []"
    and pl: "pool_transactions (transaction_pool bc) = pending_transactions bc"
    and fr: "list_all (\<lambda>r. r < next_ref st) (pending_transactions bc)"
    and gd: "py_prefix (difficulty bc)
      (HB (length (chain bc), block_time clk, map ?hp1 ?txs, hash (last (chain bc)), n)) =
      py_zeros (difficulty bc)"
    by blast+
  have "\<exists>nb. mine_block HB ?hp1 (difficulty bc) ?b0 = Some nb"
  proof (rule mine_block_terminates [where k = n])
    show "hash ?b0 = calculate_hash HB ?hp1 ?b0" by (rule Block_init_consistent)
    from gd show "py_prefix (difficulty bc)
       (HB (index ?b0, block_timestamp ?b0, map ?hp1 (transactions ?b0), previous_hash ?b0,
            nonce ?b0 + n)) = py_zeros (difficulty bc)"
      by (simp only: Block_init_fields add_0)
  qed
  then obtain nb where mb: "mine_block HB ?hp1 (difficulty bc) ?b0 = Some nb" by blast
  then have "mined HB ?hp1 (difficulty bc) ?b0 nb" by (rule mine_block_mined)
  then have nb: "index nb = length (chain bc)" "transactions nb = ?txs"
    "previous_hash nb = hash (last (chain bc))"
    by (simp_all only: mined_def Block_init_fields)
  let ?bc' = "bc\<lparr>chain := chain bc @ [nb],
              transaction_pool := (transaction_pool bc)
                \<lparr>pool_transactions := [],
                 confirmed_transactions :=
                   confirmed_transactions (transaction_pool bc) @ pending_transactions bc\<rparr>,
              pending_transactions := []\<rparr>"
  note res = mine_pending_transactions_mines [OF pe ch pl mb]
  have fresh: "next_ref st \<notin> set (pending_transactions bc)"
    using fr by (auto simp: list_all_iff)
  then have rw: "objs ?st' (next_ref st) = ?rw" by simp
  have cf: "list_all (\<lambda>r. objs ?st' r = (objs st r)\<lparr>status := ''confirmed''\<rparr>)
              (pending_transactions bc)"
    using fresh by (auto simp: list_all_iff)
  show "\<exists>st' bc' nb.
       mine_pending_transactions HB clk st bc a = Some (st', bc', Inr True) \<and>
       chain bc' = chain bc @ [nb] \<and>
       index nb = length (chain bc) \<and>
       transactions nb = pending_transactions bc @ [next_ref st] \<and>
       previous_hash nb = hash (last (chain bc)) \<and>
       objs st' (next_ref st) = reward_transaction bc a clk \<and>
       sender_address (reward_transaction bc a clk) = ''system'' \<and>
       recipient_address (reward_transaction bc a clk) = a \<and>
       amount (reward_transaction bc a clk) = mining_reward bc \<and>
       fee (reward_transaction bc a clk) = Fin 0 \<and>
       transaction_id (reward_transaction bc a clk) =
         Some (''reward_'' @ py_str_int (reward_id_time clk)) \<and>
       signature (reward_transaction bc a clk) = Some ''system_signature'' \<and>
       status (reward_transaction bc a clk) = ''confirmed'' \<and>
       list_all (\<lambda>r. objs st' r = (objs st r)\<lparr>status := ''confirmed''\<rparr>)
         (pending_transactions bc) \<and>
       pool_transactions (transaction_pool bc') = [] \<and>
       confirmed_transactions (transaction_pool bc') =
         confirmed_transactions (transaction_pool bc) @ pending_transactions bc \<and>
       pending_transactions bc' = [] \<and>
       difficulty bc' = difficulty bc \<and> mining_reward bc' = mining_reward bc"
  proof (intro exI conjI)
    show "mine_pending_transactions HB clk st bc a = Some (?st', ?bc', Inr True)" by (rule res)
    show "chain ?bc' = chain bc @ [nb]" by simp
    show "index nb = length (chain bc)" by (rule nb)
    show "transactions nb = pending_transactions bc @ [next_ref st]" by (rule nb)
    show "previous_hash nb = hash (last (chain bc))" by (rule nb)
    show "objs ?st' (next_ref st) = reward_transaction bc a clk" by (rule rw)
    show "list_all (\<lambda>r. objs ?st' r = (objs st r)\<lparr>status := ''confirmed''\<rparr>)
            (pending_transactions bc)" by (rule cf)
    show "pool_transactions (transaction_pool ?bc') = []" by simp
    show "confirmed_transactions (transaction_pool ?bc') =
            confirmed_transactions (transaction_pool bc) @ pending_transactions bc" by simp
    show "pending_transactions ?bc' = []" by simp
    show "difficulty ?bc' = difficulty bc" by simp
    show "mining_reward ?bc' = mining_reward bc" by simp
  qed (rule reward_transaction_fields)+
qed

lemma nan_bc1_fields:
  "pending_transactions nan_bc1 = [2]" "difficulty nan_bc1 = 2"
  "chain nan_bc1 = [\<lparr> index = 0, block_timestamp = Fin 50, transactions = [],
       previous_hash = ''0'', nonce = 0, hash = ''f0'' \<rparr>]"
  "transaction_pool nan_bc1 = TransactionPool_init\<lparr>pool_transactions := [2]\<rparr>"
  by (simp_all add: nan_bc1_def nan_genesis_eq)

lemma nan_heap1_eq:
  "(objs nan_store)(next_ref nan_store := reward_transaction nan_bc1 ''miner'' nan_clock) = nan_heap1"
  by (simp add: nan_reward_eq nan_heap1_def nan_store_def)

text \<open>
  The run of the example: nothing to mine in the genesis state, one block after the first
  transaction.
\<close>

theorem mine_pending_transactions_spec_witness:
  "pending_transactions nan_genesis = [] \<and>
   mine_pending_transactions ex_hash nan_clock nan_store nan_genesis ''miner'' =
     Some (nan_store, nan_genesis, Inr False) \<and>
   pending_transactions nan_bc1 = [2] \<and>
   chain nan_bc1 \<noteq> [] \<and>
   pool_transactions (transaction_pool nan_bc1) = pending_transactions nan_bc1 \<and>
   list_all (\<lambda>r. r < next_ref nan_store) (pending_transactions nan_bc1) \<and>
   mine_pending_transactions ex_hash nan_clock nan_store nan_bc1 ''miner'' =
     Some (\<lparr> objs = nan_heap2, next_ref = 4 \<rparr>, nan_bc2, Inr True) \<and>
   chain nan_bc2 = chain nan_bc1 @ [nan_block] \<and>
   index nan_block = length (chain nan_bc1) \<and>
   transactions nan_block = [2, 3] \<and>
   previous_hash nan_block = hash (last (chain nan_bc1)) \<and>
   nan_heap2 3 = reward_transaction nan_bc1 ''miner'' nan_clock \<and>
   list_all (\<lambda>r. nan_heap2 r = (objs nan_store r)\<lparr>status := ''confirmed''\<rparr>) [2] \<and>
   pool_transactions (transaction_pool nan_bc2) = [] \<and>
   confirmed_transactions (transaction_pool nan_bc2) = [2] \<and>
   pending_transactions nan_bc2 = []"
proof -
  note t1 = mine_pending_transactions_spec [where bc = nan_genesis and HB = ex_hash
      and clk = nan_clock and st = nan_store and a = "''miner''" and n = 2]
  note t2 = mine_pending_transactions_spec [where bc = nan_bc1 and HB = ex_hash
      and clk = nan_clock and st = nan_store and a = "''miner''" and n = 2]
  have e: "pending_transactions nan_genesis = []" by (simp add: nan_genesis_eq)
  with t1 have r0: "mine_pending_transactions ex_hash nan_clock nan_store nan_genesis ''miner'' =
     Some (nan_store, nan_genesis, Inr False)" by blast
  have p: "pending_transactions nan_bc1 = [2]" by (rule nan_bc1_fields)
  have pe: "pending_transactions nan_bc1 \<noteq> []" by (simp add: p)
  have ch: "chain nan_bc1 \<noteq> []" by (simp add: nan_bc1_fields)
  have pl: "pool_transactions (transaction_pool nan_bc1) = pending_transactions nan_bc1"
    by (simp add: nan_bc1_fields)
  have nr: "next_ref nan_store = 3" by (simp add: nan_store_def)
  have fr: "list_all (\<lambda>r. r < next_ref nan_store) (pending_transactions nan_bc1)"
    by (simp add: p nr)
  have gd: "py_prefix (difficulty nan_bc1)
      (ex_hash (length (chain nan_bc1), block_time nan_clock,
           map ((objs nan_store)(next_ref nan_store := reward_transaction nan_bc1 ''miner'' nan_clock))
             (pending_transactions nan_bc1 @ [next_ref nan_store]),
           hash (last (chain nan_bc1)), 2)) = py_zeros (difficulty nan_bc1)"
    by (simp add: nan_heap1_eq nan_bc1_fields py_prefix_2 py_zeros_2 ex_hash_def)
  from t2 pe ch pl fr gd
  obtain st' bc' nb where
    m: "mine_pending_transactions ex_hash nan_clock nan_store nan_bc1 ''miner'' =
          Some (st', bc', Inr True)"
    and c: "chain bc' = chain nan_bc1 @ [nb]"
    and i: "index nb = length (chain nan_bc1)"
    and x: "transactions nb = pending_transactions nan_bc1 @ [next_ref nan_store]"
    and h: "previous_hash nb = hash (last (chain nan_bc1))"
    and w: "objs st' (next_ref nan_store) = reward_transaction nan_bc1 ''miner'' nan_clock"
    and l: "list_all (\<lambda>r. objs st' r = (objs nan_store r)\<lparr>status := ''confirmed''\<rparr>)
              (pending_transactions nan_bc1)"
    and q: "pool_transactions (transaction_pool bc') = []"
           "confirmed_transactions (transaction_pool bc') =
              confirmed_transactions (transaction_pool nan_bc1) @ pending_transactions nan_bc1"
           "pending_transactions bc' = []"
    by blast
  from m nan_mine have s: "st' = \<lparr> objs = nan_heap2, next_ref = 4 \<rparr>" and b: "bc' = nan_bc2"
    by simp_all
  have cb: "chain nan_bc2 = chain nan_bc1 @ [nan_block]" by (simp add: nan_bc2_def)
  from c b cb have n: "nb = nan_block" by simp
  have o: "objs st' = nan_heap2" by (simp add: s)
  have cf: "confirmed_transactions (transaction_pool nan_bc1) = []"
    by (simp add: nan_bc1_fields TransactionPool_init_def)
  show ?thesis
    using e r0 p ch pl fr nan_mine cb i [unfolded n] x [unfolded n p nr] h [unfolded n]
      w [unfolded o nr] l [unfolded o p] q [unfolded b cf p]
    by (intro conjI) simp_all
qed

lemma enqueue_Nil: "enqueue bc [] = bc"
  by (simp add: enqueue_def)

lemma enqueue_Cons: "enqueue (enqueue bc [r]) rs = enqueue bc (r # rs)"
  by (simp add: enqueue_def)

lemma get_balance_enqueue: "get_balance hp (enqueue bc rs) a = get_balance hp bc a"
  by (simp add: get_balance_def enqueue_def)

section \<open>Pending debits\<close>

lemma add_transaction_accepts:
  assumes "fst (is_valid (hp r))"
      and "amount (hp r) + fee (hp r) \<le> get_balance hp bc (sender_address (hp r))"
      and "\<not> list_ex (\<lambda>x. transaction_id (hp x) = transaction_id (hp r))
               (pool_transactions (transaction_pool bc))"
  shows "add_transaction hp bc r = (enqueue bc [r], Inr True)"
proof -
  obtain msg where v: "is_valid (hp r) = (True, msg)"
    using assms(1) by (cases "is_valid (hp r)") auto
  from assms(2)
  have nb: "\<not> get_balance hp bc (sender_address (hp r)) < amount (hp r) + fee (hp r)"
    by (rule le_not_less)
  from nb assms(3) show ?thesis
    by (simp add: add_transaction_def pool_add_transaction_def v Let_def enqueue_def)
qed

text \<open>
  C10, as amended. \<open>add_transaction\<close> compares amount plus fee with the balance on the
  chain only. So a sequence of structurally valid transactions of one sender, each with
  amount plus fee at most the sender's confirmed balance, with pairwise different ids none
  of which is pending in the pool, is accepted entirely and in order, whatever the sum of
  the amounts and fees.
\<close>

theorem pending_debits_ignored:
  assumes "list_all (\<lambda>r. fst (is_valid (hp r)) \<and> sender_address (hp r) = a \<and>
                         amount (hp r) + fee (hp r) \<le> get_balance hp bc a) rs"
      and "distinct (map (\<lambda>r. transaction_id (hp r)) rs)"
      and "list_all (\<lambda>r. \<not> list_ex (\<lambda>x. transaction_id (hp x) = transaction_id (hp r))
                              (pool_transactions (transaction_pool bc))) rs"
  shows "submit_all hp bc rs = (enqueue bc rs, map (\<lambda>r. Inr True) rs)"
  using assms
proof (induction rs arbitrary: bc)
  case Nil
  show ?case by (simp add: enqueue_Nil)
next
  case (Cons r rs)
  from Cons.prems(1) have v: "fst (is_valid (hp r))" and s: "sender_address (hp r) = a"
    and le: "amount (hp r) + fee (hp r) \<le> get_balance hp bc a"
    and rest: "list_all (\<lambda>r. fst (is_valid (hp r)) \<and> sender_address (hp r) = a \<and>
                         amount (hp r) + fee (hp r) \<le> get_balance hp bc a) rs"
    by simp_all
  from Cons.prems(3)
  have nd: "\<not> list_ex (\<lambda>x. transaction_id (hp x) = transaction_id (hp r))
               (pool_transactions (transaction_pool bc))"
    and nds: "list_all (\<lambda>r. \<not> list_ex (\<lambda>x. transaction_id (hp x) = transaction_id (hp r))
                              (pool_transactions (transaction_pool bc))) rs"
    by simp_all
  from Cons.prems(2) have fresh: "transaction_id (hp r) \<notin> (\<lambda>r. transaction_id (hp r)) ` set rs"
    and d: "distinct (map (\<lambda>r. transaction_id (hp r)) rs)"
    by simp_all
  have first: "add_transaction hp bc r = (enqueue bc [r], Inr True)"
    using v le nd by (intro add_transaction_accepts) (simp_all add: s)
  have p1: "list_all (\<lambda>x. fst (is_valid (hp x)) \<and> sender_address (hp x) = a \<and>
                         amount (hp x) + fee (hp x) \<le> get_balance hp (enqueue bc [r]) a) rs"
    using rest by (simp add: get_balance_enqueue)
  have p3: "list_all (\<lambda>x. \<not> list_ex (\<lambda>y. transaction_id (hp y) = transaction_id (hp x))
                              (pool_transactions (transaction_pool (enqueue bc [r])))) rs"
    using nds fresh by (auto simp: enqueue_def list_all_iff list_ex_iff)
  have "submit_all hp (enqueue bc [r]) rs = (enqueue (enqueue bc [r]) rs, map (\<lambda>r. Inr True) rs)"
    by (rule Cons.IH [OF p1 d p3])
  then show ?case by (simp add: first enqueue_Cons)
qed

lemma ex_bc_fields:
  "transaction_pool ex_bc = TransactionPool_init" "pending_transactions ex_bc = []"
  "pool_transactions TransactionPool_init = []"
  by (simp_all add: ex_bc_def TransactionPool_init_def)

lemma ex_enqueue_4: "enqueue ex_bc [4] = ex_bc1"
  by (simp add: enqueue_def ex_bc1_def ex_bc_fields)

lemma ex_small_fields:
  "sender_address ex_small = ''alice''" "amount ex_small + fee ex_small = Fin 4"
  "transaction_id ex_small = Some ''tx2''"
  by (simp_all add: ex_small_def)

lemma ex_other_fields:
  "sender_address ex_other = ''alice''" "amount ex_other + fee ex_other = Fin 5"
  "transaction_id ex_other = Some ''tx3''"
  by (simp_all add: ex_other_def)

lemma ex_cost_4: "amount (ex_heap 4) + fee (ex_heap 4) = Fin 4"
  by (simp add: ex_heap_4 ex_small_def)

lemma ex_cost_5: "amount (ex_heap 5) + fee (ex_heap 5) = Fin 5"
  by (simp add: ex_heap_5 ex_other_def)

lemma ex_senders: "sender_address (ex_heap 4) = ''alice''" "sender_address (ex_heap 5) = ''alice''"
  by (simp_all add: ex_heap_4 ex_small_def ex_heap_5 ex_other_def)

lemma ex_ids: "transaction_id (ex_heap 4) = Some ''tx2''" "transaction_id (ex_heap 5) = Some ''tx3''"
  by (simp_all add: ex_heap_4 ex_small_def ex_heap_5 ex_other_def)

text \<open>
  A balance of 5, and two transactions costing 4 and 5: both are accepted.
\<close>

theorem pending_debits_ignored_witness:
  "list_all (\<lambda>r. fst (is_valid (ex_heap r)) \<and> sender_address (ex_heap r) = ''alice'' \<and>
                 amount (ex_heap r) + fee (ex_heap r) \<le> get_balance ex_heap ex_bc ''alice'') [4, 5] \<and>
   distinct (map (\<lambda>r. transaction_id (ex_heap r)) [4, 5]) \<and>
   get_balance ex_heap ex_bc ''alice'' = Fin 5 \<and>
   get_balance ex_heap ex_bc ''alice'' <
     (amount (ex_heap 4) + fee (ex_heap 4)) + (amount (ex_heap 5) + fee (ex_heap 5)) \<and>
   submit_all ex_heap ex_bc [4, 5] = (enqueue ex_bc [4, 5], [Inr True, Inr True]) \<and>
   pending_transactions (enqueue ex_bc [4, 5]) = [4, 5]"
proof -
  have a: "list_all (\<lambda>r. fst (is_valid (ex_heap r)) \<and> sender_address (ex_heap r) = ''alice'' \<and>
                 amount (ex_heap r) + fee (ex_heap r) \<le> get_balance ex_heap ex_bc ''alice'') [4, 5]"
    by (simp add: ex_heap_4 ex_heap_5 ex_small_valid ex_other_valid ex_balance
          ex_small_fields ex_other_fields)
  have b: "distinct (map (\<lambda>r. transaction_id (ex_heap r)) [4, 5])"
    by (simp add: ex_ids)
  have c: "list_all (\<lambda>r. \<not> list_ex (\<lambda>x. transaction_id (ex_heap x) = transaction_id (ex_heap r))
                              (pool_transactions (transaction_pool ex_bc))) [4, 5]"
    by (simp add: ex_bc_fields)
  have d: "get_balance ex_heap ex_bc ''alice'' <
     (amount (ex_heap 4) + fee (ex_heap 4)) + (amount (ex_heap 5) + fee (ex_heap 5))"
    by (simp add: ex_balance ex_cost_4 ex_cost_5)
  from pending_debits_ignored [OF a b c]
  have e: "submit_all ex_heap ex_bc [4, 5] = (enqueue ex_bc [4, 5], [Inr True, Inr True])"
    by simp
  have f: "pending_transactions (enqueue ex_bc [4, 5]) = [4, 5]"
    by (simp add: enqueue_def ex_bc_fields)
  from a b ex_balance d e f show ?thesis by (intro conjI)
qed

text \<open>
  C10 as stated fails when an id repeats: the same transaction, costing 4 against a
  balance of 5, is accepted once and rejected as a duplicate the second time.
\<close>

theorem pending_debits_ignored_counterexample:
  "list_all (\<lambda>r. fst (is_valid (ex_heap r)) \<and> sender_address (ex_heap r) = ''alice'' \<and>
                 amount (ex_heap r) + fee (ex_heap r) \<le> get_balance ex_heap ex_bc ''alice'') [4, 4] \<and>
   submit_all ex_heap ex_bc [4, 4] = (ex_bc1, [Inr True, Inl DuplicateTransaction]) \<and>
   pending_transactions ex_bc1 = [4]"
proof -
  have a: "list_all (\<lambda>r. fst (is_valid (ex_heap r)) \<and> sender_address (ex_heap r) = ''alice'' \<and>
                 amount (ex_heap r) + fee (ex_heap r) \<le> get_balance ex_heap ex_bc ''alice'') [4, 4]"
    by (simp add: ex_heap_4 ex_small_valid ex_balance ex_small_fields)
  have first: "add_transaction ex_heap ex_bc 4 = (ex_bc1, Inr True)"
    by (simp add: ex_add_small ex_bc1_def)
  have bal: "get_balance ex_heap ex_bc1 ''alice'' = Fin 5"
    by (simp add: ex_bc1_def get_balance_def ex_bc_def ex_chain_def ex_heap_2 ex_funding_def
          balance_step_def zero_pyfloat_def)
  have s: "sender_address ex_small = ''alice''" by (simp add: ex_small_def)
  have q: "amount ex_small + fee ex_small = Fin 4" by (simp add: ex_small_def)
  have p: "pool_transactions (transaction_pool ex_bc1) = [4]" by (simp add: ex_bc1_def)
  have second: "add_transaction ex_heap ex_bc1 4 = (ex_bc1, Inl DuplicateTransaction)"
    by (simp add: add_transaction_def pool_add_transaction_def ex_heap_4 ex_small_valid s q bal p)
  have b: "submit_all ex_heap ex_bc [4, 4] = (ex_bc1, [Inr True, Inl DuplicateTransaction])"
    by (simp add: first second)
  have c: "pending_transactions ex_bc1 = [4]" by (simp add: ex_bc1_def)
  from a b c show ?thesis by (intro conjI)
qed

end
